theory Spec2Isabelle
  imports Complex_Main "HOL-Library.Multiset"
begin

section \<open>Numbers\<close>

text \<open>
  The program is TypeScript. Its \<^verbatim>\<open>number\<close> values that come from outside (the three
  limits of the limiter, token costs, the retry count, HTTP status codes, scores) are
  modelled as rationals \<^typ>\<open>rat\<close>: every finite double is a rational, and the command
  line reads each limit with \<^verbatim>\<open>Number(v)\<close>, so fractions and negative values are
  inputs the code receives. \<^verbatim>\<open>NaN\<close> and the infinities are outside the model.
  Comparisons of doubles are exact; their additions round. The sums of the model are
  exact, so a statement that rests on a sum of token costs is stated for costs that are
  whole numbers below \<open>2 ^ 53\<close> and a token limit below \<open>2 ^ 53\<close>: there every sum the
  program compares with the limit is either computed without rounding or is at least
  \<open>2 ^ 53\<close> before and after rounding, and the program decides as the model does.
  Counters the code itself increments are \<^typ>\<open>int\<close> or \<^typ>\<open>nat\<close>, and the readings
  of \<^verbatim>\<open>Date.now()\<close> are whole milliseconds, \<^typ>\<open>int\<close>; the difference of two
  readings is only compared with 60000, and rounding to nearest does not move a whole
  number across 60000, so that comparison is the exact one.
\<close>

section \<open>The limiter (throttle.ts: createLimiter)\<close>

record limiter_options =
  maxConcurrent :: rat
  maxRequestsPerMinute :: rat
  maxTokensPerMinute :: rat

text \<open>
  A queue entry. The task \<^verbatim>\<open>fn\<close> is opaque to the limiter and is named by a number;
  \<^verbatim>\<open>resolve\<close> and \<^verbatim>\<open>reject\<close> belong to the promise \<^verbatim>\<open>schedule\<close> returned and are
  represented by the \<open>settled\<close> log of the state.
\<close>

record queue_item =
  fn :: nat
  tokens :: rat

text \<open>A pending callback of \<^verbatim>\<open>runNext\<close>: \<^verbatim>\<open>setImmediate(runNext)\<close> or
  \<^verbatim>\<open>setTimeout(runNext, ms)\<close>.\<close>

datatype timer = SetImmediate | SetTimeout nat

text \<open>
  The closure state of \<^verbatim>\<open>createLimiter\<close>: \<open>queue\<close>, \<open>active\<close>,
  \<open>requestsTimestamps\<close> and \<open>tokensTimestamps\<close> are the variables of the source.
  The other fields record what the runtime holds for the limiter: \<open>timers\<close> are the
  pending \<^verbatim>\<open>runNext\<close> callbacks, \<open>running\<close> the admitted tasks whose
  \<^verbatim>\<open>await item.fn()\<close> has not returned, \<open>settled\<close> the tasks whose promise was
  resolved or rejected (in that order), and \<open>admitted\<close> every admission ever made
  (time and token cost), which the source forgets when it prunes.
\<close>

record limiter =
  queue :: "queue_item list"
  active :: int
  requestsTimestamps :: "int list"
  tokensTimestamps :: "(int \<times> rat) list"
  timers :: "timer list"
  running :: "nat list"
  settled :: "nat list"
  admitted :: "(int \<times> rat) list"

definition createLimiter :: limiter where
  "createLimiter =
     \<lparr>queue = [], active = 0, requestsTimestamps = [], tokensTimestamps = [],
      timers = [], running = [], settled = [], admitted = []\<rparr>"

definition windowMs :: int where
  "windowMs = 60000"

text \<open>\<^verbatim>\<open>prune(now)\<close>: each loop shifts entries off the head while the head is older
  than the window.\<close>

definition prune :: "int \<Rightarrow> limiter \<Rightarrow> limiter" where
  "prune now s =
     s\<lparr>requestsTimestamps := dropWhile (\<lambda>t. now - t > windowMs) (requestsTimestamps s),
       tokensTimestamps := dropWhile (\<lambda>e. now - fst e > windowMs) (tokensTimestamps s)\<rparr>"

text \<open>\<^verbatim>\<open>tokensTimestamps.reduce((acc, e) => acc + e.tokens, 0)\<close>, with the additions
  exact: the value the program computes where no partial sum is rounded.\<close>

definition tokensUsed :: "limiter \<Rightarrow> rat" where
  "tokensUsed s = foldl (\<lambda>acc e. acc + snd e) 0 (tokensTimestamps s)"

definition pendingRequests :: "limiter \<Rightarrow> nat" where
  "pendingRequests s = length (requestsTimestamps s)"

text \<open>The throttle condition of \<^verbatim>\<open>runNext\<close>, read on the pruned state; the sum
  \<open>tokensUsed + item.tokens\<close> is exact here and a double addition in the program.\<close>

definition throttled :: "limiter_options \<Rightarrow> limiter \<Rightarrow> queue_item \<Rightarrow> bool" where
  "throttled opts s item \<longleftrightarrow>
     of_nat (pendingRequests s) \<ge> maxRequestsPerMinute opts \<or>
     tokensUsed s + tokens item > maxTokensPerMinute opts"

text \<open>
  \<^verbatim>\<open>runNext()\<close> up to its \<^verbatim>\<open>await\<close>, with \<open>now\<close> the value \<^verbatim>\<open>Date.now()\<close>
  returns. The part after the \<^verbatim>\<open>await\<close> is \<open>settle\<close> below.
\<close>

definition runNext :: "limiter_options \<Rightarrow> int \<Rightarrow> limiter \<Rightarrow> limiter" where
  "runNext opts now s =
     (if of_int (active s) \<ge> maxConcurrent opts then s
      else case queue s of
        [] \<Rightarrow> s
      | item # rest \<Rightarrow>
          let s1 = prune now (s\<lparr>queue := rest\<rparr>) in
          if throttled opts s1 item
          then s1\<lparr>queue := item # queue s1, timers := timers s1 @ [SetTimeout 250]\<rparr>
          else s1\<lparr>active := active s1 + 1,
                  requestsTimestamps := requestsTimestamps s1 @ [now],
                  tokensTimestamps := tokensTimestamps s1 @ [(now, tokens item)],
                  running := running s1 @ [fn item],
                  admitted := admitted s1 @ [(now, tokens item)]\<rparr>)"

text \<open>The \<^verbatim>\<open>try/catch/finally\<close> of \<^verbatim>\<open>runNext\<close> after the task \<open>f\<close> has returned or
  thrown: its promise is settled, \<open>active\<close> is decremented and \<^verbatim>\<open>runNext\<close> is queued
  with \<^verbatim>\<open>setImmediate\<close>. Only a task that was admitted and has not settled can
  settle.\<close>

definition settle :: "nat \<Rightarrow> limiter \<Rightarrow> limiter" where
  "settle f s =
     (if f \<in> set (running s)
      then s\<lparr>running := remove1 f (running s), settled := settled s @ [f],
             active := active s - 1, timers := timers s @ [SetImmediate]\<rparr>
      else s)"

text \<open>\<^verbatim>\<open>schedule(fn, estimatedTokens = 500)\<close>: the promise executor runs at once,
  pushes the entry and queues \<^verbatim>\<open>runNext\<close>. An omitted argument is \<open>None\<close>.\<close>

definition schedule :: "nat \<Rightarrow> rat option \<Rightarrow> limiter \<Rightarrow> limiter" where
  "schedule f estimatedTokens s =
     s\<lparr>queue := queue s @
          [\<lparr>fn = f, tokens = (case estimatedTokens of None \<Rightarrow> 500 | Some n \<Rightarrow> n)\<rparr>],
       timers := timers s @ [SetImmediate]\<rparr>"

text \<open>
  What can happen to a limiter: a call of \<^verbatim>\<open>schedule\<close>, a pending \<^verbatim>\<open>runNext\<close>
  callback firing while the clock reads \<open>now\<close>, and an admitted task settling. The
  event loop runs each to completion before the next, so a run is a list of events.
\<close>

datatype event = Schedule nat "rat option" | Fire timer int | Settle nat

fun exec :: "limiter_options \<Rightarrow> limiter \<Rightarrow> event \<Rightarrow> limiter" where
  "exec opts s (Schedule f k) = schedule f k s"
| "exec opts s (Fire t now) =
     (if t \<in> set (timers s) then runNext opts now (s\<lparr>timers := remove1 t (timers s)\<rparr>)
      else s)"
| "exec opts s (Settle f) = settle f s"

definition run :: "limiter_options \<Rightarrow> event list \<Rightarrow> limiter" where
  "run opts evs = foldl (exec opts) createLimiter evs"

text \<open>
  For the rolling budgets: the clock readings of a run in order, the runs whose explicit
  token costs are not negative, and the admissions of a history that fall in the
  trailing window that ends at \<open>T\<close> (an entry stays in the window while
  \<^verbatim>\<open>now - t > windowMs\<close> is false).
\<close>

definition fire_times :: "event list \<Rightarrow> int list" where
  "fire_times evs = concat (map (\<lambda>e. case e of Fire t now \<Rightarrow> [now] | _ \<Rightarrow> []) evs)"

definition tokens_nonneg :: "event list \<Rightarrow> bool" where
  "tokens_nonneg evs =
     list_all (\<lambda>e. case e of Schedule f (Some k) \<Rightarrow> 0 \<le> k | _ \<Rightarrow> True) evs"

text \<open>A token cost that is a whole number from 0 to below \<open>2 ^ 53\<close>, and the runs
  whose explicit token costs are such (the default cost 500 is one).\<close>

definition whole_cost :: "rat \<Rightarrow> bool" where
  "whole_cost k \<longleftrightarrow> 0 \<le> k \<and> k < 2 ^ 53 \<and> k = of_int \<lfloor>k\<rfloor>"

definition tokens_whole :: "event list \<Rightarrow> bool" where
  "tokens_whole evs =
     list_all (\<lambda>e. case e of Schedule f (Some k) \<Rightarrow> whole_cost k | _ \<Rightarrow> True) evs"

definition window_entries :: "int \<Rightarrow> (int \<times> rat) list \<Rightarrow> (int \<times> rat) list" where
  "window_entries T h = filter (\<lambda>e. T - fst e \<le> windowMs \<and> fst e \<le> T) h"

text \<open>
  The invariant behind the rolling budgets, for limits \<open>n\<close> and \<open>M\<close> and the clock
  readings \<open>fts\<close> so far: the two logs agree; the token log is what is left of the
  history of admissions after dropping entries that were older than the window at
  some reading; no cost is negative; the logs and every trailing window of the history
  are within the limits.
\<close>

definition budget_inv :: "nat \<Rightarrow> rat \<Rightarrow> int list \<Rightarrow> limiter \<Rightarrow> bool" where
  "budget_inv n M fts s \<longleftrightarrow>
     requestsTimestamps s = map fst (tokensTimestamps s) \<and>
     (\<exists>d. admitted s = d @ tokensTimestamps s \<and>
          (\<forall>e\<in>set d. \<exists>t\<in>set fts. fst e + windowMs < t)) \<and>
     (\<forall>e\<in>set (admitted s). 0 \<le> snd e) \<and>
     (\<forall>q\<in>set (queue s). 0 \<le> tokens q) \<and>
     length (tokensTimestamps s) \<le> n \<and>
     sum_list (map snd (tokensTimestamps s)) \<le> M \<and>
     (\<forall>T. length (window_entries T (admitted s)) \<le> n \<and>
          sum_list (map snd (window_entries T (admitted s))) \<le> M)"

section \<open>Failures and the retry wrapper (runner.ts: withRetry)\<close>

text \<open>The JavaScript values a \<^verbatim>\<open>status\<close> property can hold, as far as \<^verbatim>\<open>withRetry\<close>
  tells them apart.\<close>

datatype js_value = JUndefined | JNull | JNum rat | JStr string

text \<open>
  A thrown value, by what the program reads of it: \<^verbatim>\<open>err instanceof Error\<close>,
  \<^verbatim>\<open>err.message\<close>, \<^verbatim>\<open>String(err)\<close>, \<^verbatim>\<open>err?.status\<close> and
  \<^verbatim>\<open>err?.response?.status\<close>.
\<close>

record thrown =
  is_Error :: bool
  message :: string
  as_string :: string
  status :: js_value
  response_status :: js_value

text \<open>\<^verbatim>\<open>a ?? b\<close>\<close>

definition nullish :: "js_value \<Rightarrow> js_value \<Rightarrow> js_value" where
  "nullish a b = (if a = JUndefined \<or> a = JNull then b else a)"

text \<open>\<^verbatim>\<open>status === 429 || (typeof status === "number" && status >= 500)\<close>\<close>

definition retriable :: "thrown \<Rightarrow> bool" where
  "retriable err =
     (let st = nullish (status err) (response_status err)
      in st = JNum 429 \<or> (case st of JNum n \<Rightarrow> n \<ge> 500 | _ \<Rightarrow> False))"

text \<open>\<^verbatim>\<open>Math.min(8000, Math.round(delay * 2))\<close>\<close>

definition next_delay :: "int \<Rightarrow> int" where
  "next_delay delay = min 8000 (round (rat_of_int delay * 2))"

text \<open>
  The loop of \<^verbatim>\<open>withRetry\<close>. The operation has effects, so \<open>f k\<close> is what its
  invocation number \<open>k\<close> (from 0) does: \<open>Inr v\<close> when it returns \<open>v\<close>, \<open>Inl err\<close> when
  it throws \<open>err\<close>; \<open>rnd k\<close> is the value of \<^verbatim>\<open>Math.random()\<close> read after that
  invocation failed. On entry \<open>attempt\<close> invocations have failed. The result is what
  \<^verbatim>\<open>withRetry\<close> returns or throws, the number of invocations made, and for each
  \<^verbatim>\<open>setTimeout\<close> the value of \<open>delay\<close> then and the time waited, \<open>delay + jitter\<close>.
\<close>

function withRetry_loop ::
  "(nat \<Rightarrow> thrown + 'a) \<Rightarrow> (nat \<Rightarrow> rat) \<Rightarrow> rat \<Rightarrow> nat \<Rightarrow> int \<Rightarrow> (int \<times> int) list
     \<Rightarrow> (thrown + 'a) \<times> nat \<times> (int \<times> int) list" where
  "withRetry_loop f rnd retries attempt delay ws =
     (case f attempt of
        Inr v \<Rightarrow> (Inr v, Suc attempt, ws)
      | Inl err \<Rightarrow>
          if \<not> retriable err \<or> of_nat (Suc attempt) > retries
          then (Inl err, Suc attempt, ws)
          else withRetry_loop f rnd retries (Suc attempt) (next_delay delay)
                 (ws @ [(delay, delay + \<lfloor>rnd attempt * 200\<rfloor>)]))"
  by pat_completeness auto
termination
proof (relation "measure (\<lambda>(f, rnd, retries, attempt, delay, ws). nat \<lfloor>retries\<rfloor> - attempt)")
  show "wf (measure (\<lambda>(f, rnd, retries, attempt, delay, ws). nat \<lfloor>retries\<rfloor> - attempt))"
    by simp
next
  fix f :: "nat \<Rightarrow> thrown + 'a" and rnd :: "nat \<Rightarrow> rat" and retries :: rat
    and attempt :: nat and delay :: int and ws :: "(int \<times> int) list" and err :: thrown
  assume "\<not> (\<not> retriable err \<or> retries < of_nat (Suc attempt))"
  then have "of_nat (Suc attempt) \<le> retries" by simp
  then have "int (Suc attempt) \<le> \<lfloor>retries\<rfloor>" by (simp add: le_floor_iff)
  then have "attempt < nat \<lfloor>retries\<rfloor>" by linarith
  then show "((f, rnd, retries, Suc attempt, next_delay delay,
               ws @ [(delay, delay + \<lfloor>rnd attempt * 200\<rfloor>)]),
              (f, rnd, retries, attempt, delay, ws))
             \<in> measure (\<lambda>(f, rnd, retries, attempt, delay, ws). nat \<lfloor>retries\<rfloor> - attempt)"
    by simp
qed

declare withRetry_loop.simps [simp del]

definition withRetry ::
  "(nat \<Rightarrow> thrown + 'a) \<Rightarrow> (nat \<Rightarrow> rat) \<Rightarrow> rat \<Rightarrow> (thrown + 'a) \<times> nat \<times> (int \<times> int) list" where
  "withRetry f rnd retries = withRetry_loop f rnd retries 0 500 []"

definition outcome :: "(thrown + 'a) \<times> nat \<times> (int \<times> int) list \<Rightarrow> thrown + 'a" where
  "outcome r = fst r"

definition invocations :: "(thrown + 'a) \<times> nat \<times> (int \<times> int) list \<Rightarrow> nat" where
  "invocations r = fst (snd r)"

definition backoff :: "(thrown + 'a) \<times> nat \<times> (int \<times> int) list \<Rightarrow> (int \<times> int) list" where
  "backoff r = snd (snd r)"

section \<open>The run orchestrator (runner.ts: runBenchmark)\<close>

datatype eval_type = Exact | LlmJudge

text \<open>\<^verbatim>\<open>TestCase\<close> and an entry of \<^verbatim>\<open>RunOptions.models\<close>. Values of type
  \<^verbatim>\<open>unknown\<close> (\<open>expected\<close>, \<open>raw\<close>) are opaque and stand as strings.\<close>

record TestCase =
  tc_id :: string
  tc_task :: string
  tc_prompt :: string
  tc_expected :: "string option"
  tc_eval :: eval_type

record ModelEntry =
  m_name :: string
  m_provider_id :: string

record TestResult =
  testId :: string
  model :: string
  provider_id :: string
  prompt :: string
  response :: string
  raw :: "string option"
  score :: rat
  latencyMs :: int
  expected :: "string option"
  error :: "string option"

text \<open>
  \<open>onProgress\<close> is the caller's optional callback: applied to \<open>completed\<close>, \<open>total\<close>
  and \<open>last\<close> it yields what the call throws, \<open>None\<close> when it returns.
\<close>

record RunOptions =
  suite :: "TestCase list"
  models :: "ModelEntry list"
  concurrency :: rat
  run_maxRequestsPerMinute :: rat
  run_maxTokensPerMinute :: rat
  retries :: rat
  onProgress :: "(nat \<Rightarrow> nat \<Rightarrow> TestResult \<Rightarrow> thrown option) option"

text \<open>
  The collaborators of a run. \<open>prepare\<close> is what the statements before the loops throw
  (creating the run directory, creating the client), \<open>None\<close> when they all return.
  The next are indexed by the unit of work \<open>u\<close> (its position in the task list):
  \<open>complete u k\<close> is what call number \<open>k\<close> of \<^verbatim>\<open>client.complete\<close> for the unit does
  (the text and the raw payload, or a thrown value), \<open>random u k\<close> the value of
  \<^verbatim>\<open>Math.random()\<close> read after that call failed, \<open>evaluateTest u txt\<close> the score the
  evaluator returns for the response or what it throws, \<open>latency u\<close> the rounded
  difference of the two \<^verbatim>\<open>performance.now()\<close> readings, and \<open>writeTrace u r\<close> what
  \<^verbatim>\<open>writeTrace(runDir, r)\<close> throws when the unit calls it with the result \<open>r\<close> (from
  \<^verbatim>\<open>JSON.stringify\<close> or from \<^verbatim>\<open>writeFileSync\<close>), \<open>None\<close> when the file is written.
  \<open>writeReport rs\<close> is what the statements after \<^verbatim>\<open>Promise.all\<close> throw (writing
  \<^verbatim>\<open>report.json\<close>, rendering and writing \<^verbatim>\<open>summary.md\<close>) for the results \<open>rs\<close>.
\<close>

record environment =
  prepare :: "thrown option"
  complete :: "nat \<Rightarrow> nat \<Rightarrow> thrown + (string \<times> string)"
  random :: "nat \<Rightarrow> nat \<Rightarrow> rat"
  evaluateTest :: "nat \<Rightarrow> string \<Rightarrow> thrown + rat"
  latency :: "nat \<Rightarrow> int"
  writeTrace :: "nat \<Rightarrow> TestResult \<Rightarrow> thrown option"
  writeReport :: "TestResult list \<Rightarrow> thrown option"

text \<open>\<^verbatim>\<open>Math.max(50, Math.ceil(length / 4) + 50)\<close>\<close>

definition estimateTokens :: "string \<Rightarrow> rat" where
  "estimateTokens txt = of_int (max 50 (\<lceil>rat_of_nat (length txt) / 4\<rceil> + 50))"

text \<open>\<^verbatim>\<open>err instanceof Error ? err.message : String(err)\<close>\<close>

definition error_text :: "thrown \<Rightarrow> string" where
  "error_text err = (if is_Error err then message err else as_string err)"

text \<open>The two \<^verbatim>\<open>TestResult\<close> literals of the task: the one of the \<^verbatim>\<open>try\<close> block
  and the one of the \<^verbatim>\<open>catch\<close> block.\<close>

definition success_result ::
  "environment \<Rightarrow> nat \<Rightarrow> ModelEntry \<Rightarrow> TestCase \<Rightarrow> string \<Rightarrow> string \<Rightarrow> rat \<Rightarrow> TestResult" where
  "success_result env u m t txt payload sc =
     \<lparr>testId = tc_id t, model = m_name m, provider_id = m_provider_id m,
      prompt = tc_prompt t, response = txt, raw = Some payload, score = sc,
      latencyMs = latency env u, expected = tc_expected t, error = None\<rparr>"

definition failure_result ::
  "environment \<Rightarrow> nat \<Rightarrow> ModelEntry \<Rightarrow> TestCase \<Rightarrow> thrown \<Rightarrow> TestResult" where
  "failure_result env u m t err =
     \<lparr>testId = tc_id t, model = m_name m, provider_id = m_provider_id m,
      prompt = tc_prompt t, response = [], raw = None, score = 0,
      latencyMs = latency env u, expected = tc_expected t,
      error = Some (error_text err)\<rparr>"

text \<open>
  The task a unit hands to \<^verbatim>\<open>limiter.schedule\<close>. The \<^verbatim>\<open>try\<close> block makes the
  retried completion call, calls the evaluator, writes the trace and returns the
  result; whatever one of these throws enters the \<^verbatim>\<open>catch\<close> block, which builds the
  failure result, writes its trace and returns it. What the second \<^verbatim>\<open>writeTrace\<close>
  throws leaves the task: \<open>Inl\<close> is the rejection of the task.
\<close>

definition try_block :: "environment \<Rightarrow> RunOptions \<Rightarrow> nat \<Rightarrow> ModelEntry \<Rightarrow> TestCase \<Rightarrow> thrown + TestResult" where
  "try_block env options u m t =
     (case outcome (withRetry (complete env u) (random env u) (retries options)) of
        Inl err \<Rightarrow> Inl err
      | Inr (txt, payload) \<Rightarrow>
          (case evaluateTest env u txt of
             Inl err \<Rightarrow> Inl err
           | Inr sc \<Rightarrow>
               (case writeTrace env u (success_result env u m t txt payload sc) of
                  Some err \<Rightarrow> Inl err
                | None \<Rightarrow> Inr (success_result env u m t txt payload sc))))"

definition unit_task :: "environment \<Rightarrow> RunOptions \<Rightarrow> nat \<Rightarrow> ModelEntry \<Rightarrow> TestCase \<Rightarrow> thrown + TestResult" where
  "unit_task env options u m t =
     (case try_block env options u m t of
        Inr result \<Rightarrow> Inr result
      | Inl err \<Rightarrow>
          (case writeTrace env u (failure_result env u m t err) of
             Some err' \<Rightarrow> Inl err'
           | None \<Rightarrow> Inr (failure_result env u m t err)))"

text \<open>The two nested \<^verbatim>\<open>for\<close> loops: models outside, tests inside.\<close>

definition units :: "RunOptions \<Rightarrow> (ModelEntry \<times> TestCase) list" where
  "units options = concat (map (\<lambda>m. map (\<lambda>t. (m, t)) (suite options)) (models options))"

definition limiter_opts :: "RunOptions \<Rightarrow> limiter_options" where
  "limiter_opts options =
     \<lparr>maxConcurrent = concurrency options,
      maxRequestsPerMinute = run_maxRequestsPerMinute options,
      maxTokensPerMinute = run_maxTokensPerMinute options\<rparr>"

text \<open>The calls of \<^verbatim>\<open>limiter.schedule\<close> the loops make, one per unit, before any
  callback runs.\<close>

definition schedule_all :: "RunOptions \<Rightarrow> event list" where
  "schedule_all options =
     map (\<lambda>(u, (m, t)). Schedule u (Some (estimateTokens (tc_prompt t))))
       (enumerate 0 (units options))"

text \<open>What the task of unit \<open>u\<close> settles with; \<open>None\<close> for a number that is no unit.\<close>

definition task_outcome :: "environment \<Rightarrow> RunOptions \<Rightarrow> nat \<Rightarrow> (thrown + TestResult) option" where
  "task_outcome env options u =
     (if u < length (units options)
      then Some (unit_task env options u (fst (units options ! u)) (snd (units options ! u)))
      else None)"

definition limiter_after :: "RunOptions \<Rightarrow> event list \<Rightarrow> limiter" where
  "limiter_after options evs = run (limiter_opts options) (schedule_all options @ evs)"

text \<open>
  What the settling of the task of unit \<open>u\<close> does to the run, whose state here is the
  \<open>results\<close> array and the first rejection among the promises of \<open>tasks\<close>, the one
  \<^verbatim>\<open>Promise.all\<close> rejects with. A fulfilled task runs its \<^verbatim>\<open>.then\<close> callback: the
  result is pushed, \<open>completed\<close> (the length of the array) is incremented and
  \<open>onProgress\<close> is called, and what that throws rejects the promise. A rejected task
  skips the callback and its promise is rejected with the same value.
\<close>

definition totalUnits :: "RunOptions \<Rightarrow> nat" where
  "totalUnits options = length (models options) * length (suite options)"

definition on_settled ::
  "environment \<Rightarrow> RunOptions \<Rightarrow> TestResult list \<times> thrown option \<Rightarrow> nat
     \<Rightarrow> TestResult list \<times> thrown option" where
  "on_settled env options st u =
     (case task_outcome env options u of
        Some (Inr res) \<Rightarrow>
          (fst st @ [res],
           case snd st of
             Some e \<Rightarrow> Some e
           | None \<Rightarrow>
               (case onProgress options of
                  None \<Rightarrow> None
                | Some cb \<Rightarrow> cb (length (fst st @ [res])) (totalUnits options) res))
      | Some (Inl err) \<Rightarrow> (fst st, case snd st of Some e \<Rightarrow> Some e | None \<Rightarrow> Some err)
      | None \<Rightarrow> st)"

text \<open>The limiter of a run after the events \<open>evs\<close> that follow the scheduling loops, the
  \<open>results\<close> array then, and the first rejection.\<close>

definition run_after :: "environment \<Rightarrow> RunOptions \<Rightarrow> event list \<Rightarrow> TestResult list \<times> thrown option" where
  "run_after env options evs =
     foldl (on_settled env options) ([], None) (settled (limiter_after options evs))"

definition results_after :: "environment \<Rightarrow> RunOptions \<Rightarrow> event list \<Rightarrow> TestResult list" where
  "results_after env options evs = fst (run_after env options evs)"

definition first_rejection :: "environment \<Rightarrow> RunOptions \<Rightarrow> event list \<Rightarrow> thrown option" where
  "first_rejection env options evs = snd (run_after env options evs)"

text \<open>The tasks handed to \<^verbatim>\<open>schedule\<close> in a run of events, in order.\<close>

definition scheduled :: "event list \<Rightarrow> nat list" where
  "scheduled evs = concat (map (\<lambda>e. case e of Schedule f k \<Rightarrow> [f] | _ \<Rightarrow> []) evs)"

text \<open>The limiter is private to the run: after the loops only its callbacks and the
  settling of tasks touch it.\<close>

definition no_schedule :: "event list \<Rightarrow> bool" where
  "no_schedule evs = list_all (\<lambda>e. case e of Schedule f k \<Rightarrow> False | _ \<Rightarrow> True) evs"

definition all_settled :: "RunOptions \<Rightarrow> event list \<Rightarrow> bool" where
  "all_settled options evs =
     list_all (\<lambda>u. u \<in> set (settled (limiter_after options evs)))
       [0..<length (units options)]"

text \<open>The runs in which no task rejects: every unit writes the trace of its result, in
  the \<^verbatim>\<open>try\<close> block or else in the \<^verbatim>\<open>catch\<close> block.\<close>

definition tasks_fulfil :: "environment \<Rightarrow> RunOptions \<Rightarrow> bool" where
  "tasks_fulfil env options =
     list_all (\<lambda>u. case task_outcome env options u of Some (Inr res) \<Rightarrow> True | _ \<Rightarrow> False)
       [0..<length (units options)]"

section \<open>The aggregator (runner.ts: summarize)\<close>

text \<open>
  \<open>byModel\<close> of the source is an object literal \<^verbatim>\<open>{}\<close> used as a dictionary, so a
  read \<^verbatim>\<open>byModel[key]\<close> of a key the object does not own falls through to
  \<^verbatim>\<open>Object.prototype\<close>. These are the property names found there; each holds a
  function or an object, which is truthy.
\<close>

definition object_prototype_keys :: "string list" where
  "object_prototype_keys =
     [''constructor'', ''__proto__'', ''hasOwnProperty'', ''isPrototypeOf'',
      ''propertyIsEnumerable'', ''toLocaleString'', ''toString'', ''valueOf'',
      ''__defineGetter__'', ''__defineSetter__'', ''__lookupGetter__'',
      ''__lookupSetter__'']"

text \<open>
  One turn of the loop over the results. The own properties of \<open>byModel\<close> are an
  association list of \<open>(tests, sum)\<close> in insertion order. Where the key is not owned
  but inherited, \<^verbatim>\<open>!byModel[key]\<close> is false, no entry is created, and the two
  updates write \<open>tests\<close> and \<open>sum\<close> onto the inherited object: \<open>byModel\<close> keeps its
  own properties. The list is read by key only, so the order in which
  \<^verbatim>\<open>Object.entries\<close> lists the keys plays no part.
\<close>

definition tally :: "(string \<times> nat \<times> rat) list \<Rightarrow> TestResult \<Rightarrow> (string \<times> nat \<times> rat) list" where
  "tally byModel r =
     (let key = model r in
      case map_of byModel key of
        Some (n, s) \<Rightarrow> map (\<lambda>(k, v). if k = key then (k, (n + 1, s + score r)) else (k, v)) byModel
      | None \<Rightarrow>
          if key \<in> set object_prototype_keys then byModel
          else byModel @ [(key, (1, 0 + score r))])"

record ModelSummary =
  tests :: nat
  avgScore :: rat

record Summary =
  byModel :: "(string \<times> ModelSummary) list"
  overallAvg :: rat

definition summarize :: "TestResult list \<Rightarrow> Summary" where
  "summarize results =
     \<lparr>byModel =
        map (\<lambda>(k, (n, s)). (k, \<lparr>tests = n, avgScore = (if n \<noteq> 0 then s / of_nat n else 0)\<rparr>))
          (foldl tally [] results),
      overallAvg =
        (if length results \<noteq> 0
         then foldl (\<lambda>acc r. acc + score r) 0 results / of_nat (length results)
         else 0)\<rparr>"

section \<open>Awaiting the tasks (runner.ts: runBenchmark, Promise.all)\<close>

datatype 'a promise = Pending | Fulfilled 'a | Rejected thrown

record RunOutput =
  out_results :: "TestResult list"
  out_summary :: Summary

text \<open>
  The promise of \<^verbatim>\<open>runBenchmark\<close>. It is rejected with what the statements before
  the loops throw; else \<^verbatim>\<open>await Promise.all(tasks)\<close> rejects it with the first
  rejection among the tasks' promises and leaves it pending until every task has
  settled; then the summary is computed and the report is written, and the promise is
  rejected with what that throws or fulfilled with the output.
\<close>

definition runBenchmark :: "environment \<Rightarrow> RunOptions \<Rightarrow> event list \<Rightarrow> RunOutput promise" where
  "runBenchmark env options evs =
     (case prepare env of
        Some e \<Rightarrow> Rejected e
      | None \<Rightarrow>
          (case first_rejection env options evs of
             Some e \<Rightarrow> Rejected e
           | None \<Rightarrow>
               if all_settled options evs
               then (case writeReport env (results_after env options evs) of
                       Some e \<Rightarrow> Rejected e
                     | None \<Rightarrow>
                         Fulfilled \<lparr>out_results = results_after env options evs,
                                    out_summary = summarize (results_after env options evs)\<rparr>)
               else Pending))"

section \<open>Trace files (runner.ts: writeTrace, sanitize)\<close>

text \<open>
  A string is its list of code units, and \<open>sanitize\<close> replaces each unit the pattern
  \<^verbatim>\<open>/[^a-zA-Z0-9_.-]/g\<close> matches by an underscore.
\<close>

definition safe_char :: "char \<Rightarrow> bool" where
  "safe_char c \<longleftrightarrow>
     c \<in> set ''abcdefghijklmnopqrstuvwxyzABCDEFGHIJKLMNOPQRSTUVWXYZ0123456789_.-''"

definition sanitize :: "string \<Rightarrow> string" where
  "sanitize s = map (\<lambda>c. if safe_char c then c else CHR ''_'') s"

text \<open>\<^verbatim>\<open>Boolean(r.error) || r.score < 1\<close>: an absent and an empty \<open>error\<close> are falsy.\<close>

definition isFail :: "TestResult \<Rightarrow> bool" where
  "isFail r \<longleftrightarrow> (case error r of None \<Rightarrow> False | Some e \<Rightarrow> e \<noteq> []) \<or> score r < 1"

text \<open>The file name \<^verbatim>\<open>writeTrace\<close> builds, under the run's \<^verbatim>\<open>traces\<close> directory.\<close>

definition trace_name :: "TestResult \<Rightarrow> string" where
  "trace_name r =
     sanitize (model r) @ ''__'' @ sanitize (testId r) @
     (if isFail r then ''__FAIL'' else []) @ ''.json''"

section \<open>Default token cost of the limiter\<close>



section \<open>Facts about runs of the limiter\<close>

lemma run_snoc: "run opts (evs @ [e]) = exec opts (run opts evs) e"
  by (simp add: run_def)

lemma run_Nil: "run opts [] = createLimiter"
  by (simp add: run_def)

lemma prune_frame:
  "queue (prune now s) = queue s" "active (prune now s) = active s"
  "timers (prune now s) = timers s" "running (prune now s) = running s"
  "settled (prune now s) = settled s" "admitted (prune now s) = admitted s"
  by (simp_all add: prune_def)

lemma throttled_queue_irrelevant:
  "throttled opts (prune now (s\<lparr>queue := q\<rparr>)) item = throttled opts (prune now s) item"
  by (simp add: throttled_def prune_def pendingRequests_def tokensUsed_def)

lemmas limiter_eval =
  run_def createLimiter_def schedule_def settle_def runNext_def throttled_def prune_def
  tokensUsed_def pendingRequests_def Let_def windowMs_def

section \<open>Rejection by the admission check\<close>

text \<open>
  C3 (as amended). When the active count has reached \<^verbatim>\<open>maxConcurrent\<close>, \<^verbatim>\<open>runNext\<close>
  returns at once: the state is unchanged, so the head item stays at the front of the
  queue, and no retry is scheduled. When a slot is free and the head item is throttled
  by the request count or by the token sum of the pruned window, the item is put back
  at the front of the queue, the order of the queue is as before, the active count is
  unchanged, and one \<^verbatim>\<open>setTimeout(runNext, 250)\<close> is scheduled; only the logs are
  pruned.
\<close>

theorem runNext_rejection:
  "(of_int (active s) \<ge> maxConcurrent opts \<longrightarrow> runNext opts now s = s) \<and>
   (of_int (active s) < maxConcurrent opts \<and> queue s = item # rest \<and>
    (of_nat (pendingRequests (prune now s)) \<ge> maxRequestsPerMinute opts \<or>
     tokensUsed (prune now s) + tokens item > maxTokensPerMinute opts) \<longrightarrow>
      runNext opts now s = (prune now s)\<lparr>timers := timers s @ [SetTimeout 250]\<rparr> \<and>
      queue (runNext opts now s) = item # rest \<and>
      active (runNext opts now s) = active s)"
proof -
  have a: "runNext opts now s = s" if "of_int (active s) \<ge> maxConcurrent opts"
    using that by (simp add: runNext_def)
  have b: "runNext opts now s = (prune now s)\<lparr>timers := timers s @ [SetTimeout 250]\<rparr> \<and>
      queue (runNext opts now s) = item # rest \<and>
      active (runNext opts now s) = active s"
    if free: "of_int (active s) < maxConcurrent opts" and q: "queue s = item # rest"
      and th: "of_nat (pendingRequests (prune now s)) \<ge> maxRequestsPerMinute opts \<or>
        tokensUsed (prune now s) + tokens item > maxTokensPerMinute opts"
  proof -
    have "throttled opts (prune now s) item" using th by (simp add: throttled_def)
    then have "throttled opts (prune now (s\<lparr>queue := rest\<rparr>)) item"
      by (simp only: throttled_queue_irrelevant)
    then have r: "runNext opts now s =
        (prune now (s\<lparr>queue := rest\<rparr>))\<lparr>queue := item # rest, timers := timers s @ [SetTimeout 250]\<rparr>"
      using free q by (simp add: runNext_def Let_def prune_frame)
    have "(prune now (s\<lparr>queue := rest\<rparr>))\<lparr>queue := item # rest\<rparr> = prune now s"
      using q by (simp add: prune_def)
    then have "runNext opts now s = (prune now s)\<lparr>timers := timers s @ [SetTimeout 250]\<rparr>"
      using r by simp
    then show ?thesis using q by (simp add: prune_frame)
  qed
  show ?thesis using a b by blast
qed

theorem runNext_rejection_witness:
  "queue (runNext \<lparr>maxConcurrent = 4, maxRequestsPerMinute = 1, maxTokensPerMinute = 120000\<rparr> 100
     (run \<lparr>maxConcurrent = 4, maxRequestsPerMinute = 1, maxTokensPerMinute = 120000\<rparr>
        [Schedule 0 None, Schedule 1 None, Fire SetImmediate 0]))
     = [\<lparr>fn = 1, tokens = 500\<rparr>] \<and>
   timers (runNext \<lparr>maxConcurrent = 4, maxRequestsPerMinute = 1, maxTokensPerMinute = 120000\<rparr> 100
     (run \<lparr>maxConcurrent = 4, maxRequestsPerMinute = 1, maxTokensPerMinute = 120000\<rparr>
        [Schedule 0 None, Schedule 1 None, Fire SetImmediate 0]))
     = [SetImmediate, SetTimeout 250] \<and>
   runNext \<lparr>maxConcurrent = 1, maxRequestsPerMinute = 60, maxTokensPerMinute = 120000\<rparr> 100
     (run \<lparr>maxConcurrent = 1, maxRequestsPerMinute = 60, maxTokensPerMinute = 120000\<rparr>
        [Schedule 0 None, Schedule 1 None, Fire SetImmediate 0])
     = run \<lparr>maxConcurrent = 1, maxRequestsPerMinute = 60, maxTokensPerMinute = 120000\<rparr>
        [Schedule 0 None, Schedule 1 None, Fire SetImmediate 0]"
  using runNext_rejection
    [where s = "run \<lparr>maxConcurrent = 4, maxRequestsPerMinute = 1, maxTokensPerMinute = 120000\<rparr>
          [Schedule 0 None, Schedule 1 None, Fire SetImmediate 0]"
       and opts = "\<lparr>maxConcurrent = 4, maxRequestsPerMinute = 1, maxTokensPerMinute = 120000\<rparr>"
       and now = 100 and item = "\<lparr>fn = 1, tokens = 500\<rparr>" and rest = "[]"]
    runNext_rejection
    [where s = "run \<lparr>maxConcurrent = 1, maxRequestsPerMinute = 60, maxTokensPerMinute = 120000\<rparr>
          [Schedule 0 None, Schedule 1 None, Fire SetImmediate 0]"
       and opts = "\<lparr>maxConcurrent = 1, maxRequestsPerMinute = 60, maxTokensPerMinute = 120000\<rparr>"
       and now = 100 and item = "\<lparr>fn = 1, tokens = 500\<rparr>" and rest = "[]"]
  by (simp add: limiter_eval)

text \<open>
  The claim as stated fails in the concurrency case. With \<^verbatim>\<open>maxConcurrent = 1\<close>, two
  items scheduled and the first admitted, the second call of \<^verbatim>\<open>runNext\<close> is rejected
  because the active count has reached the limit, and it schedules no retry: no timer
  is pending afterwards.
\<close>

theorem runNext_rejection_counterexample:
  "of_int (active (run \<lparr>maxConcurrent = 1, maxRequestsPerMinute = 60, maxTokensPerMinute = 120000\<rparr>
        [Schedule 0 None, Schedule 1 None, Fire SetImmediate 0]))
     \<ge> maxConcurrent \<lparr>maxConcurrent = 1, maxRequestsPerMinute = 60, maxTokensPerMinute = 120000\<rparr> \<and>
   queue (run \<lparr>maxConcurrent = 1, maxRequestsPerMinute = 60, maxTokensPerMinute = 120000\<rparr>
        [Schedule 0 None, Schedule 1 None, Fire SetImmediate 0]) = [\<lparr>fn = 1, tokens = 500\<rparr>] \<and>
   timers (run \<lparr>maxConcurrent = 1, maxRequestsPerMinute = 60, maxTokensPerMinute = 120000\<rparr>
        [Schedule 0 None, Schedule 1 None, Fire SetImmediate 0, Fire SetImmediate 0]) = [] \<and>
   SetTimeout 250 \<notin> set (timers
     (runNext \<lparr>maxConcurrent = 1, maxRequestsPerMinute = 60, maxTokensPerMinute = 120000\<rparr> 0
        (run \<lparr>maxConcurrent = 1, maxRequestsPerMinute = 60, maxTokensPerMinute = 120000\<rparr>
           [Schedule 0 None, Schedule 1 None, Fire SetImmediate 0])))"
  by (simp add: limiter_eval)

section \<open>The concurrency bound\<close>

lemma settle_active_running:
  assumes "active s = int (length (running s))"
  shows "active (settle f s) = int (length (running (settle f s)))"
proof (cases "f \<in> set (running s)")
  case True
  then have "0 < length (running s)" by (rule length_pos_if_in_set)
  then have "int (length (running s) - 1) = int (length (running s)) - 1" by linarith
  then show ?thesis using True assms by (simp add: settle_def length_remove1)
next
  case False
  then show ?thesis using assms by (simp add: settle_def)
qed

lemma exec_active_running:
  "active s = int (length (running s)) \<Longrightarrow>
   active (exec opts s e) = int (length (running (exec opts s e)))"
  by (cases e)
     (auto simp add: schedule_def settle_active_running runNext_def Let_def prune_def
        split: list.splits)

lemma exec_active_bound:
  assumes "active s \<le> max 0 \<lceil>maxConcurrent opts\<rceil>" "active s = int (length (running s))"
  shows "active (exec opts s e) \<le> max 0 \<lceil>maxConcurrent opts\<rceil>"
proof (cases e)
  case (Schedule f k)
  then show ?thesis using assms by (simp add: schedule_def)
next
  case (Fire t now)
  show ?thesis
  proof (cases "of_int (active s) \<ge> maxConcurrent opts")
    case True
    then show ?thesis using assms Fire by (simp add: runNext_def)
  next
    case False
    then have "active s < \<lceil>maxConcurrent opts\<rceil>" by (simp add: less_ceiling_iff)
    then show ?thesis using assms Fire
      by (auto simp add: runNext_def Let_def prune_def split: list.splits)
  qed
next
  case (Settle f)
  then show ?thesis using assms by (auto simp add: settle_def)
qed

lemma run_active_inv:
  "active (run opts evs) = int (length (running (run opts evs))) \<and>
   active (run opts evs) \<le> max 0 \<lceil>maxConcurrent opts\<rceil>"
proof (induction evs rule: rev_induct)
  case Nil
  then show ?case by (simp add: run_Nil createLimiter_def)
next
  case (snoc e evs)
  then show ?case
    using exec_active_running [of "run opts evs" opts e]
      exec_active_bound [of "run opts evs" opts e]
    by (simp add: run_snoc)
qed

text \<open>
  C1 (as amended). After any sequence of events the active count is the number of
  admitted tasks that have not settled, and it is at most \<open>max 0 \<lceil>maxConcurrent\<rceil>\<close>;
  so for every configuration whose \<^verbatim>\<open>maxConcurrent\<close> is a whole number that is not
  negative, the active count never exceeds \<^verbatim>\<open>maxConcurrent\<close>.
\<close>

theorem active_le_maxConcurrent:
  "active (run opts evs) = int (length (running (run opts evs))) \<and>
   active (run opts evs) \<le> max 0 \<lceil>maxConcurrent opts\<rceil> \<and>
   (maxConcurrent opts = of_nat n \<longrightarrow>
      of_int (active (run opts evs)) \<le> maxConcurrent opts)"
proof -
  note inv = run_active_inv [of opts evs]
  have "of_int (active (run opts evs)) \<le> maxConcurrent opts" if "maxConcurrent opts = of_nat n"
  proof -
    have "active (run opts evs) \<le> max 0 (int n)" using inv that by simp
    then have "active (run opts evs) \<le> int n" by simp
    then have "(of_int (active (run opts evs)) :: rat) \<le> of_int (int n)"
      by (simp only: of_int_le_iff)
    then show ?thesis using that by simp
  qed
  then show ?thesis using inv by blast
qed

theorem active_le_maxConcurrent_witness:
  "active (run \<lparr>maxConcurrent = 2, maxRequestsPerMinute = 60, maxTokensPerMinute = 120000\<rparr>
     [Schedule 0 None, Schedule 1 None, Schedule 2 None,
      Fire SetImmediate 0, Fire SetImmediate 0, Fire SetImmediate 0]) = 2 \<and>
   running (run \<lparr>maxConcurrent = 2, maxRequestsPerMinute = 60, maxTokensPerMinute = 120000\<rparr>
     [Schedule 0 None, Schedule 1 None, Schedule 2 None,
      Fire SetImmediate 0, Fire SetImmediate 0, Fire SetImmediate 0]) = [0, 1] \<and>
   maxConcurrent \<lparr>maxConcurrent = 2, maxRequestsPerMinute = 60, maxTokensPerMinute = 120000\<rparr>
     = of_nat 2 \<and>
   of_int (active (run \<lparr>maxConcurrent = 2, maxRequestsPerMinute = 60, maxTokensPerMinute = 120000\<rparr>
     [Schedule 0 None, Schedule 1 None, Schedule 2 None,
      Fire SetImmediate 0, Fire SetImmediate 0, Fire SetImmediate 0]))
     \<le> maxConcurrent \<lparr>maxConcurrent = 2, maxRequestsPerMinute = 60, maxTokensPerMinute = 120000\<rparr>"
  using active_le_maxConcurrent
    [where opts = "\<lparr>maxConcurrent = 2, maxRequestsPerMinute = 60, maxTokensPerMinute = 120000\<rparr>"
       and evs = "[Schedule 0 None, Schedule 1 None, Schedule 2 None,
                   Fire SetImmediate 0, Fire SetImmediate 0, Fire SetImmediate 0]"
       and n = 2]
  by (simp add: limiter_eval)

text \<open>
  The claim as stated, for every configuration, fails where the limit is not a whole
  number: with \<^verbatim>\<open>--concurrency 2.5\<close> three tasks are admitted at once, since the
  third is admitted while the active count 2 is still below 2.5.
\<close>

theorem active_le_maxConcurrent_counterexample:
  "\<not> of_int (active (run \<lparr>maxConcurrent = 5 / 2, maxRequestsPerMinute = 60, maxTokensPerMinute = 120000\<rparr>
     [Schedule 0 None, Schedule 1 None, Schedule 2 None,
      Fire SetImmediate 0, Fire SetImmediate 0, Fire SetImmediate 0]))
     \<le> maxConcurrent \<lparr>maxConcurrent = 5 / 2, maxRequestsPerMinute = 60, maxTokensPerMinute = 120000\<rparr> \<and>
   running (run \<lparr>maxConcurrent = 5 / 2, maxRequestsPerMinute = 60, maxTokensPerMinute = 120000\<rparr>
     [Schedule 0 None, Schedule 1 None, Schedule 2 None,
      Fire SetImmediate 0, Fire SetImmediate 0, Fire SetImmediate 0]) = [0, 1, 2]"
  by (simp add: limiter_eval)

text \<open>The concurrency bound needs a limit that is not negative: the active count 0 of
  a fresh limiter exceeds a negative limit.\<close>

lemma active_negative_limit:
  "\<not> of_int (active (run \<lparr>maxConcurrent = - 1, maxRequestsPerMinute = 60, maxTokensPerMinute = 120000\<rparr> []))
     \<le> maxConcurrent \<lparr>maxConcurrent = - 1, maxRequestsPerMinute = 60, maxTokensPerMinute = 120000\<rparr>"
  by (simp add: limiter_eval)

section \<open>The rolling budgets\<close>

lemma foldl_add_snd: "foldl (\<lambda>acc e. acc + snd e) a xs = a + sum_list (map snd xs)"
  by (induction xs arbitrary: a) (simp_all add: add.assoc)

lemma tokensUsed_sum: "tokensUsed s = sum_list (map snd (tokensTimestamps s))"
  by (simp add: tokensUsed_def foldl_add_snd)

lemma runNext_logs:
  "(tokensTimestamps (runNext opts now s) = tokensTimestamps s \<and>
    requestsTimestamps (runNext opts now s) = requestsTimestamps s \<and>
    admitted (runNext opts now s) = admitted s \<and>
    queue (runNext opts now s) = queue s) \<or>
   (tokensTimestamps (runNext opts now s) = tokensTimestamps (prune now s) \<and>
    requestsTimestamps (runNext opts now s) = requestsTimestamps (prune now s) \<and>
    admitted (runNext opts now s) = admitted s \<and>
    queue (runNext opts now s) = queue s) \<or>
   (\<exists>item rest. queue s = item # rest \<and> queue (runNext opts now s) = rest \<and>
      \<not> throttled opts (prune now s) item \<and>
      tokensTimestamps (runNext opts now s) = tokensTimestamps (prune now s) @ [(now, tokens item)] \<and>
      requestsTimestamps (runNext opts now s) = requestsTimestamps (prune now s) @ [now] \<and>
      admitted (runNext opts now s) = admitted s @ [(now, tokens item)])"
proof (cases "of_int (active s) \<ge> maxConcurrent opts")
  case True
  then show ?thesis by (simp add: runNext_def)
next
  case False
  show ?thesis
  proof (cases "queue s")
    case Nil
    then show ?thesis using False by (simp add: runNext_def)
  next
    case (Cons item rest)
    have th: "throttled opts (prune now (s\<lparr>queue := rest\<rparr>)) item = throttled opts (prune now s) item"
      by (simp add: throttled_def prune_def pendingRequests_def tokensUsed_def)
    show ?thesis
    proof (cases "throttled opts (prune now s) item")
      case True
      then have "tokensTimestamps (runNext opts now s) = tokensTimestamps (prune now s) \<and>
        requestsTimestamps (runNext opts now s) = requestsTimestamps (prune now s) \<and>
        admitted (runNext opts now s) = admitted s \<and>
        queue (runNext opts now s) = queue s"
        using False Cons th by (simp add: runNext_def Let_def prune_def)
      then show ?thesis by blast
    next
      case nt: False
      then have "queue (runNext opts now s) = rest \<and>
        tokensTimestamps (runNext opts now s) = tokensTimestamps (prune now s) @ [(now, tokens item)] \<and>
        requestsTimestamps (runNext opts now s) = requestsTimestamps (prune now s) @ [now] \<and>
        admitted (runNext opts now s) = admitted s @ [(now, tokens item)]"
        using False Cons th by (simp add: runNext_def Let_def prune_def)
      then show ?thesis using Cons nt by blast
    qed
  qed
qed

lemma sum_snd_filter_le:
  fixes xs :: "(int \<times> rat) list"
  assumes "\<forall>e\<in>set xs. 0 \<le> snd e"
  shows "sum_list (map snd (filter Q xs)) \<le> sum_list (map snd xs)"
  using assms by (induction xs) (auto intro: add_increasing)

lemma sum_snd_dropWhile_le:
  fixes xs :: "(int \<times> rat) list"
  assumes "\<forall>e\<in>set xs. 0 \<le> snd e"
  shows "sum_list (map snd (dropWhile Q xs)) \<le> sum_list (map snd xs)"
  using assms by (induction xs) (auto intro: add_increasing)

lemma dropWhile_map_fst:
  "dropWhile (\<lambda>t. now - t > windowMs) (map fst xs) = map fst (dropWhile (\<lambda>e. now - fst e > windowMs) xs)"
  by (induction xs) auto

lemma budget_inv_mono:
  "budget_inv n M fts s \<Longrightarrow> set fts \<subseteq> set fts' \<Longrightarrow> budget_inv n M fts' s"
  unfolding budget_inv_def by blast

lemma budget_inv_prune:
  assumes inv: "budget_inv n M fts s"
  shows "budget_inv n M (fts @ [now]) (prune now s)"
proof -
  let ?P = "\<lambda>e::int \<times> rat. now - fst e > windowMs"
  let ?log = "tokensTimestamps s"
  from inv obtain d where d: "admitted s = d @ ?log"
    "\<forall>e\<in>set d. \<exists>t\<in>set fts. fst e + windowMs < t"
    unfolding budget_inv_def by blast
  have nonneg: "\<forall>e\<in>set ?log. 0 \<le> snd e"
    using inv d(1) unfolding budget_inv_def by auto
  have 1: "requestsTimestamps (prune now s) = map fst (tokensTimestamps (prune now s))"
    using inv unfolding budget_inv_def by (simp add: prune_def dropWhile_map_fst)
  have split: "?log = takeWhile ?P ?log @ dropWhile ?P ?log" by simp
  have "admitted s = (d @ takeWhile ?P ?log) @ dropWhile ?P ?log"
    using d(1) by simp
  moreover have "\<forall>e\<in>set (d @ takeWhile ?P ?log). \<exists>t\<in>set (fts @ [now]). fst e + windowMs < t"
  proof
    fix e assume "e \<in> set (d @ takeWhile ?P ?log)"
    then consider "e \<in> set d" | "e \<in> set (takeWhile ?P ?log)" by auto
    then show "\<exists>t\<in>set (fts @ [now]). fst e + windowMs < t"
    proof cases
      case 1
      then show ?thesis using d(2) by auto
    next
      case 2
      then have "?P e" by (rule set_takeWhileD [THEN conjunct2])
      then show ?thesis by auto
    qed
  qed
  ultimately have "admitted s = (d @ takeWhile ?P ?log) @ dropWhile ?P ?log \<and>
      (\<forall>e\<in>set (d @ takeWhile ?P ?log). \<exists>t\<in>set (fts @ [now]). fst e + windowMs < t)"
    by (rule conjI)
  then have "\<exists>d'. admitted s = d' @ dropWhile ?P ?log \<and>
      (\<forall>e\<in>set d'. \<exists>t\<in>set (fts @ [now]). fst e + windowMs < t)"
    by (rule exI)
  moreover have "admitted (prune now s) = admitted s"
    "tokensTimestamps (prune now s) = dropWhile ?P ?log"
    by (simp_all add: prune_def)
  ultimately have 2: "\<exists>d'. admitted (prune now s) = d' @ tokensTimestamps (prune now s) \<and>
      (\<forall>e\<in>set d'. \<exists>t\<in>set (fts @ [now]). fst e + windowMs < t)"
    by (simp only:)
  have 5: "length (tokensTimestamps (prune now s)) \<le> n"
    using inv length_dropWhile_le [of ?P ?log] unfolding budget_inv_def
    by (simp add: prune_def)
  have 6: "sum_list (map snd (tokensTimestamps (prune now s))) \<le> M"
    using inv sum_snd_dropWhile_le [OF nonneg, of ?P] unfolding budget_inv_def
    by (simp add: prune_def)
  show ?thesis
    unfolding budget_inv_def
    using 1 2 5 6 inv unfolding budget_inv_def
    by (simp add: prune_def)
qed

lemma budget_inv_frame:
  "budget_inv n M fts s \<Longrightarrow> requestsTimestamps s' = requestsTimestamps s \<Longrightarrow>
   tokensTimestamps s' = tokensTimestamps s \<Longrightarrow> admitted s' = admitted s \<Longrightarrow>
   set (queue s') \<subseteq> set (queue s) \<Longrightarrow> budget_inv n M fts s'"
  unfolding budget_inv_def by (simp add: subset_iff)

lemma window_entries_append:
  "window_entries T (xs @ ys) = window_entries T xs @ window_entries T ys"
  by (simp add: window_entries_def)

lemma window_entries_old:
  assumes "\<forall>e\<in>set d. fst e + windowMs < now" "now \<le> T"
  shows "window_entries T d = []"
  using assms by (auto simp add: window_entries_def filter_empty_conv)

lemma budget_inv_admit:
  assumes inv: "budget_inv n M fts s1"
    and old: "\<forall>t\<in>set fts. t \<le> now"
    and k0: "0 \<le> k"
    and len: "length (tokensTimestamps s1) < n"
    and tok: "sum_list (map snd (tokensTimestamps s1)) + k \<le> M"
    and s2: "tokensTimestamps s2 = tokensTimestamps s1 @ [(now, k)]"
      "requestsTimestamps s2 = requestsTimestamps s1 @ [now]"
      "admitted s2 = admitted s1 @ [(now, k)]"
      "set (queue s2) \<subseteq> set (queue s1)"
  shows "budget_inv n M fts s2"
proof -
  let ?log = "tokensTimestamps s1"
  from inv obtain d where d: "admitted s1 = d @ ?log"
    "\<forall>e\<in>set d. \<exists>t\<in>set fts. fst e + windowMs < t"
    unfolding budget_inv_def by blast
  have nonneg: "\<forall>e\<in>set (admitted s1). 0 \<le> snd e"
    using inv unfolding budget_inv_def by blast
  then have nonneg_log: "\<forall>e\<in>set ?log. 0 \<le> snd e" using d(1) by auto
  have d_old: "\<forall>e\<in>set d. fst e + windowMs < now"
    using d(2) old by fastforce
  have 1: "requestsTimestamps s2 = map fst (tokensTimestamps s2)"
    using inv s2 unfolding budget_inv_def by simp
  have 2: "\<exists>d'. admitted s2 = d' @ tokensTimestamps s2 \<and>
      (\<forall>e\<in>set d'. \<exists>t\<in>set fts. fst e + windowMs < t)"
    using d s2 by auto
  have 3: "\<forall>e\<in>set (admitted s2). 0 \<le> snd e" using nonneg k0 s2 by auto
  have 4: "\<forall>q\<in>set (queue s2). 0 \<le> tokens q"
    using inv s2(4) unfolding budget_inv_def by blast
  have 5: "length (tokensTimestamps s2) \<le> n" using len s2 by simp
  have 6: "sum_list (map snd (tokensTimestamps s2)) \<le> M" using tok s2 by simp
  have 7: "length (window_entries T (admitted s2)) \<le> n \<and>
      sum_list (map snd (window_entries T (admitted s2))) \<le> M" for T
  proof (cases "T - now \<le> windowMs \<and> now \<le> T")
    case False
    then have "window_entries T (admitted s2) = window_entries T (admitted s1)"
      using s2(3) by (auto simp add: window_entries_def)
    then show ?thesis using inv unfolding budget_inv_def by simp
  next
    case True
    have "window_entries T d = []" using d_old True by (simp add: window_entries_old)
    then have eq: "window_entries T (admitted s2) = window_entries T ?log @ [(now, k)]"
      using s2(3) d(1) True by (simp add: window_entries_append) (simp add: window_entries_def)
    have "length (window_entries T ?log) \<le> length ?log"
      by (simp add: window_entries_def)
    moreover have "sum_list (map snd (window_entries T ?log)) \<le> sum_list (map snd ?log)"
      unfolding window_entries_def by (rule sum_snd_filter_le [OF nonneg_log])
    ultimately show ?thesis using eq len tok by simp
  qed
  show ?thesis unfolding budget_inv_def using 1 2 3 4 5 6 7 by blast
qed

lemma fire_times_snoc:
  "fire_times (evs @ [Schedule f k]) = fire_times evs"
  "fire_times (evs @ [Settle f]) = fire_times evs"
  "fire_times (evs @ [Fire t now]) = fire_times evs @ [now]"
  by (simp_all add: fire_times_def)

lemma budget_inv_runNext:
  assumes inv: "budget_inv n M fts s"
    and lim: "maxRequestsPerMinute opts = of_nat n" "maxTokensPerMinute opts = M"
    and old: "\<forall>t\<in>set fts. t \<le> now"
  shows "budget_inv n M (fts @ [now]) (runNext opts now s)"
proof -
  let ?s' = "runNext opts now s"
  have pr: "budget_inv n M (fts @ [now]) (prune now s)" by (rule budget_inv_prune [OF inv])
  have old': "\<forall>t\<in>set (fts @ [now]). t \<le> now" using old by simp
  consider
    (same) "tokensTimestamps ?s' = tokensTimestamps s" "requestsTimestamps ?s' = requestsTimestamps s"
      "admitted ?s' = admitted s" "queue ?s' = queue s"
  | (pruned) "tokensTimestamps ?s' = tokensTimestamps (prune now s)"
      "requestsTimestamps ?s' = requestsTimestamps (prune now s)"
      "admitted ?s' = admitted s" "queue ?s' = queue s"
  | (push) item rest where "queue s = item # rest" "queue ?s' = rest"
      "\<not> throttled opts (prune now s) item"
      "tokensTimestamps ?s' = tokensTimestamps (prune now s) @ [(now, tokens item)]"
      "requestsTimestamps ?s' = requestsTimestamps (prune now s) @ [now]"
      "admitted ?s' = admitted s @ [(now, tokens item)]"
    using runNext_logs [of opts now s] by blast
  then show ?thesis
  proof cases
    case same
    have "budget_inv n M (fts @ [now]) s" by (rule budget_inv_mono [OF inv]) auto
    then show ?thesis by (rule budget_inv_frame) (simp_all add: same)
  next
    case pruned
    show ?thesis using pr by (rule budget_inv_frame) (simp_all add: pruned prune_def)
  next
    case push
    have k0: "0 \<le> tokens item" using inv push(1) unfolding budget_inv_def by simp
    have req: "requestsTimestamps (prune now s) = map fst (tokensTimestamps (prune now s))"
      using pr unfolding budget_inv_def by blast
    from push(3) have "\<not> (of_nat n :: rat) \<le> of_nat (length (requestsTimestamps (prune now s)))"
      and t: "\<not> M < tokensUsed (prune now s) + tokens item"
      using lim by (simp_all add: throttled_def pendingRequests_def)
    then have "length (requestsTimestamps (prune now s)) < n" by simp
    then have len: "length (tokensTimestamps (prune now s)) < n" using req by simp
    have tok: "sum_list (map snd (tokensTimestamps (prune now s))) + tokens item \<le> M"
      using t by (simp add: tokensUsed_sum)
    show ?thesis
      using pr old' k0 len tok push(4) push(5)
    proof (rule budget_inv_admit)
      show "admitted ?s' = admitted (prune now s) @ [(now, tokens item)]"
        using push(6) by (simp add: prune_def)
      show "set (queue ?s') \<subseteq> set (queue (prune now s))"
        using push(1,2) by (auto simp add: prune_def)
    qed
  qed
qed

lemma budget_inv_exec:
  assumes inv: "budget_inv n M (fire_times evs) s"
    and lim: "maxRequestsPerMinute opts = of_nat n" "maxTokensPerMinute opts = M"
    and tk: "tokens_nonneg [e]"
    and srt: "sorted (fire_times (evs @ [e]))"
  shows "budget_inv n M (fire_times (evs @ [e])) (exec opts s e)"
proof (cases e)
  case (Schedule f k)
  have "(0::rat) \<le> (case k of None \<Rightarrow> 500 | Some x \<Rightarrow> x)"
    using tk Schedule by (cases k) (simp_all add: tokens_nonneg_def)
  then show ?thesis using inv Schedule
    unfolding budget_inv_def by (simp add: fire_times_snoc schedule_def)
next
  case (Settle f)
  have "budget_inv n M (fire_times evs) (settle f s)"
    using inv by (rule budget_inv_frame) (simp_all add: settle_def)
  then show ?thesis using Settle by (simp add: fire_times_snoc)
next
  case (Fire t now)
  have old: "\<forall>x\<in>set (fire_times evs). x \<le> now"
    using srt Fire by (simp add: fire_times_snoc sorted_append)
  show ?thesis
  proof (cases "t \<in> set (timers s)")
    case False
    have "budget_inv n M (fire_times evs @ [now]) s" by (rule budget_inv_mono [OF inv]) auto
    then show ?thesis using Fire False by (simp add: fire_times_snoc)
  next
    case True
    have "budget_inv n M (fire_times evs) (s\<lparr>timers := remove1 t (timers s)\<rparr>)"
      using inv by (rule budget_inv_frame) simp_all
    then have "budget_inv n M (fire_times evs @ [now])
        (runNext opts now (s\<lparr>timers := remove1 t (timers s)\<rparr>))"
      using lim old by (rule budget_inv_runNext)
    then show ?thesis using Fire True by (simp add: fire_times_snoc)
  qed
qed

lemma tokens_nonneg_append:
  "tokens_nonneg (xs @ ys) \<longleftrightarrow> tokens_nonneg xs \<and> tokens_nonneg ys"
  by (simp add: tokens_nonneg_def)

lemma fire_times_append: "fire_times (xs @ ys) = fire_times xs @ fire_times ys"
  by (simp add: fire_times_def)

lemma budget_inv_run:
  assumes lim: "maxRequestsPerMinute opts = of_nat n" "maxTokensPerMinute opts = M" "0 \<le> M"
  shows "tokens_nonneg evs \<Longrightarrow> sorted (fire_times evs) \<Longrightarrow>
         budget_inv n M (fire_times evs) (run opts evs)"
proof (induction evs rule: rev_induct)
  case Nil
  then show ?case using lim(3)
    by (simp add: run_Nil createLimiter_def budget_inv_def window_entries_def)
next
  case (snoc e evs)
  have "tokens_nonneg evs" "tokens_nonneg [e]"
    using snoc.prems(1) by (simp_all add: tokens_nonneg_append)
  moreover have "sorted (fire_times evs)"
    using snoc.prems(2) by (simp add: fire_times_append sorted_append)
  ultimately have "budget_inv n M (fire_times evs) (run opts evs)"
    using snoc.IH by blast
  then have "budget_inv n M (fire_times (evs @ [e])) (exec opts (run opts evs) e)"
    using lim(1,2) \<open>tokens_nonneg [e]\<close> snoc.prems(2) by (rule budget_inv_exec)
  then show ?case by (simp add: run_snoc)
qed

lemma tokens_whole_nonneg: "tokens_whole evs \<Longrightarrow> tokens_nonneg evs"
  unfolding tokens_whole_def tokens_nonneg_def list_all_iff
  by (auto simp add: whole_cost_def split: event.splits option.splits)

lemma tokens_whole_append:
  "tokens_whole (xs @ ys) \<longleftrightarrow> tokens_whole xs \<and> tokens_whole ys"
  by (simp add: tokens_whole_def)

lemma whole_cost_500: "whole_cost 500"
  by (simp add: whole_cost_def)

text \<open>Every cost in the queue and in the token log of a run with whole costs is whole.\<close>

lemma exec_costs_whole:
  assumes q: "\<forall>q\<in>set (queue s). whole_cost (tokens q)"
    and l: "\<forall>e\<in>set (tokensTimestamps s). whole_cost (snd e)"
    and e: "tokens_whole [e]"
  shows "(\<forall>q\<in>set (queue (exec opts s e)). whole_cost (tokens q)) \<and>
         (\<forall>e\<in>set (tokensTimestamps (exec opts s e)). whole_cost (snd e))"
proof (cases e)
  case (Schedule f k)
  have "whole_cost (case k of None \<Rightarrow> 500 | Some x \<Rightarrow> x)"
    using e Schedule by (cases k) (simp_all add: tokens_whole_def whole_cost_500)
  then show ?thesis using q l Schedule by (simp add: schedule_def)
next
  case (Settle f)
  then show ?thesis using q l by (simp add: settle_def)
next
  case (Fire t now)
  show ?thesis
  proof (cases "t \<in> set (timers s)")
    case False
    then show ?thesis using q l Fire by simp
  next
    case True
    let ?s0 = "s\<lparr>timers := remove1 t (timers s)\<rparr>"
    let ?s' = "runNext opts now ?s0"
    have pr: "set (tokensTimestamps (prune now ?s0)) \<subseteq> set (tokensTimestamps s)"
      by (auto simp add: prune_def dest: set_dropWhileD)
    consider
      (same) "tokensTimestamps ?s' = tokensTimestamps ?s0" "queue ?s' = queue ?s0"
    | (pruned) "tokensTimestamps ?s' = tokensTimestamps (prune now ?s0)" "queue ?s' = queue ?s0"
    | (push) item rest where "queue ?s0 = item # rest" "queue ?s' = rest"
        "tokensTimestamps ?s' = tokensTimestamps (prune now ?s0) @ [(now, tokens item)]"
      using runNext_logs [of opts now ?s0] by blast
    then have "(\<forall>q\<in>set (queue ?s'). whole_cost (tokens q)) \<and>
         (\<forall>e\<in>set (tokensTimestamps ?s'). whole_cost (snd e))"
    proof cases
      case same
      then show ?thesis using q l by simp
    next
      case pruned
      then show ?thesis using q l pr by auto
    next
      case push
      then show ?thesis using q l pr by auto
    qed
    then show ?thesis using Fire True by simp
  qed
qed

lemma run_costs_whole:
  "tokens_whole evs \<Longrightarrow>
   (\<forall>q\<in>set (queue (run opts evs)). whole_cost (tokens q)) \<and>
   (\<forall>e\<in>set (tokensTimestamps (run opts evs)). whole_cost (snd e))"
proof (induction evs rule: rev_induct)
  case Nil
  then show ?case by (simp add: run_Nil createLimiter_def)
next
  case (snoc e evs)
  then have "tokens_whole evs" "tokens_whole [e]" by (simp_all add: tokens_whole_append)
  then show ?case
    using snoc.IH exec_costs_whole [of "run opts evs" e opts] by (simp add: run_snoc)
qed

text \<open>
  C2 (as amended). For every configuration whose \<^verbatim>\<open>maxRequestsPerMinute\<close> is a whole
  number that is not negative and whose \<^verbatim>\<open>maxTokensPerMinute\<close> lies from 0 to below
  \<open>2 ^ 53\<close>, and every run in which the token costs are whole numbers from 0 to below
  \<open>2 ^ 53\<close> and the clock readings do not decrease: the request log never holds more
  than \<^verbatim>\<open>maxRequestsPerMinute\<close> entries, the token log never sums to more than
  \<^verbatim>\<open>maxTokensPerMinute\<close>, and for every instant \<open>T\<close> the admissions made in the 60
  seconds up to \<open>T\<close> number at most \<^verbatim>\<open>maxRequestsPerMinute\<close> and their token costs
  sum to at most \<^verbatim>\<open>maxTokensPerMinute\<close>. The limits can be reached and are never
  exceeded. Every cost in the queue and in the token log is a whole number and the
  log's sum stays below \<open>2 ^ 53\<close>, so the sums the program forms over the log are not
  rounded.
\<close>

theorem rolling_budgets:
  assumes "maxRequestsPerMinute opts = of_nat n"
    and "0 \<le> maxTokensPerMinute opts" and "maxTokensPerMinute opts < 2 ^ 53"
    and "tokens_whole evs" and "sorted (fire_times evs)"
  shows "of_nat (pendingRequests (run opts evs)) \<le> maxRequestsPerMinute opts \<and>
         tokensUsed (run opts evs) \<le> maxTokensPerMinute opts \<and>
         (\<forall>T. of_nat (length (window_entries T (admitted (run opts evs))))
                 \<le> maxRequestsPerMinute opts \<and>
              sum_list (map snd (window_entries T (admitted (run opts evs))))
                 \<le> maxTokensPerMinute opts) \<and>
         (\<forall>e\<in>set (tokensTimestamps (run opts evs)). whole_cost (snd e)) \<and>
         (\<forall>q\<in>set (queue (run opts evs)). whole_cost (tokens q)) \<and>
         tokensUsed (run opts evs) < 2 ^ 53"
proof -
  have nn: "tokens_nonneg evs" by (rule tokens_whole_nonneg [OF assms(4)])
  have inv: "budget_inv n (maxTokensPerMinute opts) (fire_times evs) (run opts evs)"
    using assms(1) refl assms(2) nn assms(5) by (rule budget_inv_run)
  then have "pendingRequests (run opts evs) \<le> n"
    unfolding budget_inv_def pendingRequests_def by simp
  then have 1: "of_nat (pendingRequests (run opts evs)) \<le> maxRequestsPerMinute opts"
    using assms(1) by simp
  have 2: "tokensUsed (run opts evs) \<le> maxTokensPerMinute opts"
    using inv unfolding budget_inv_def by (simp add: tokensUsed_sum)
  have 3: "of_nat (length (window_entries T (admitted (run opts evs))))
             \<le> maxRequestsPerMinute opts \<and>
           sum_list (map snd (window_entries T (admitted (run opts evs))))
             \<le> maxTokensPerMinute opts" for T
    using inv assms(1) unfolding budget_inv_def by simp
  note 4 = run_costs_whole [OF assms(4), of opts]
  have 5: "tokensUsed (run opts evs) < 2 ^ 53" using 2 assms(3) by simp
  show ?thesis using 1 2 3 4 5 by blast
qed


theorem rolling_budgets_witness:
  "maxRequestsPerMinute \<lparr>maxConcurrent = 4, maxRequestsPerMinute = 2, maxTokensPerMinute = 1000\<rparr>
     = of_nat 2 \<and>
   maxTokensPerMinute \<lparr>maxConcurrent = 4, maxRequestsPerMinute = 2, maxTokensPerMinute = 1000\<rparr>
     < 2 ^ 53 \<and>
   tokens_whole [Schedule 0 None, Schedule 1 (Some 500), Schedule 2 None,
      Fire SetImmediate 0, Fire SetImmediate 0, Fire SetImmediate 0,
      Fire (SetTimeout 250) 60001] \<and>
   sorted (fire_times [Schedule 0 None, Schedule 1 (Some 500), Schedule 2 None,
      Fire SetImmediate 0, Fire SetImmediate 0, Fire SetImmediate 0,
      Fire (SetTimeout 250) 60001]) \<and>
   admitted (run \<lparr>maxConcurrent = 4, maxRequestsPerMinute = 2, maxTokensPerMinute = 1000\<rparr>
     [Schedule 0 None, Schedule 1 (Some 500), Schedule 2 None,
      Fire SetImmediate 0, Fire SetImmediate 0, Fire SetImmediate 0,
      Fire (SetTimeout 250) 60001]) = [(0, 500), (0, 500), (60001, 500)] \<and>
   tokensTimestamps (run \<lparr>maxConcurrent = 4, maxRequestsPerMinute = 2, maxTokensPerMinute = 1000\<rparr>
     [Schedule 0 None, Schedule 1 (Some 500), Schedule 2 None,
      Fire SetImmediate 0, Fire SetImmediate 0, Fire SetImmediate 0,
      Fire (SetTimeout 250) 60001]) = [(60001, 500)] \<and>
   length (window_entries 60000
     (admitted (run \<lparr>maxConcurrent = 4, maxRequestsPerMinute = 2, maxTokensPerMinute = 1000\<rparr>
       [Schedule 0 None, Schedule 1 (Some 500), Schedule 2 None,
        Fire SetImmediate 0, Fire SetImmediate 0, Fire SetImmediate 0,
        Fire (SetTimeout 250) 60001]))) = 2 \<and>
   sum_list (map snd (window_entries 60000
     (admitted (run \<lparr>maxConcurrent = 4, maxRequestsPerMinute = 2, maxTokensPerMinute = 1000\<rparr>
       [Schedule 0 None, Schedule 1 (Some 500), Schedule 2 None,
        Fire SetImmediate 0, Fire SetImmediate 0, Fire SetImmediate 0,
        Fire (SetTimeout 250) 60001])))) \<le> 1000"
  using rolling_budgets
    [where opts = "\<lparr>maxConcurrent = 4, maxRequestsPerMinute = 2, maxTokensPerMinute = 1000\<rparr>"
       and n = 2
       and evs = "[Schedule 0 None, Schedule 1 (Some 500), Schedule 2 None,
                   Fire SetImmediate 0, Fire SetImmediate 0, Fire SetImmediate 0,
                   Fire (SetTimeout 250) 60001]"]
  by (simp add: limiter_eval fire_times_def tokens_whole_def whole_cost_def window_entries_def)

text \<open>
  The claim as stated, for every configuration, fails where the request limit is not a
  whole number: with \<^verbatim>\<open>--max-rpm 2.5\<close> three requests are admitted in the same
  millisecond, since the third is admitted while the log holds 2 entries, below 2.5.
\<close>

theorem rolling_budgets_counterexample:
  "\<not> of_nat (pendingRequests
       (run \<lparr>maxConcurrent = 4, maxRequestsPerMinute = 5 / 2, maxTokensPerMinute = 120000\<rparr>
          [Schedule 0 None, Schedule 1 None, Schedule 2 None,
           Fire SetImmediate 0, Fire SetImmediate 0, Fire SetImmediate 0]))
     \<le> maxRequestsPerMinute \<lparr>maxConcurrent = 4, maxRequestsPerMinute = 5 / 2, maxTokensPerMinute = 120000\<rparr> \<and>
   requestsTimestamps
       (run \<lparr>maxConcurrent = 4, maxRequestsPerMinute = 5 / 2, maxTokensPerMinute = 120000\<rparr>
          [Schedule 0 None, Schedule 1 None, Schedule 2 None,
           Fire SetImmediate 0, Fire SetImmediate 0, Fire SetImmediate 0]) = [0, 0, 0]"
  by (simp add: limiter_eval)

text \<open>
  The hypotheses on signs and on the clock are needed already in exact arithmetic.
  With a negative token cost in the log, pruning it raises the sum above the limit;
  when the clock steps back, an admission lands in a window that was already full; and
  a negative token limit is exceeded by the empty log. The bound \<open>2 ^ 53\<close> is needed
  for the program, whose additions round: with the limit \<open>2 ^ 53\<close> and the costs
  \<open>2 ^ 53\<close> and 1 it forms \<open>2 ^ 53 + 1\<close>, which rounds to \<open>2 ^ 53\<close>, and admits both.
\<close>

lemma rolling_budgets_hypotheses_needed:
  "\<not> tokensUsed (run \<lparr>maxConcurrent = 4, maxRequestsPerMinute = 60, maxTokensPerMinute = 100\<rparr>
        [Schedule 0 (Some (- 100)), Schedule 1 (Some 200), Schedule 2 (Some 50),
         Fire SetImmediate 0, Fire SetImmediate 1, Fire SetImmediate 60001])
     \<le> maxTokensPerMinute \<lparr>maxConcurrent = 4, maxRequestsPerMinute = 60, maxTokensPerMinute = 100\<rparr> \<and>
   \<not> of_nat (length (window_entries 60000
        (admitted (run \<lparr>maxConcurrent = 4, maxRequestsPerMinute = 2, maxTokensPerMinute = 120000\<rparr>
          [Schedule 0 None, Schedule 1 None, Schedule 2 None, Schedule 3 None,
           Fire SetImmediate 0, Fire SetImmediate 50000, Fire SetImmediate 200000,
           Fire SetImmediate 50001]))))
     \<le> maxRequestsPerMinute \<lparr>maxConcurrent = 4, maxRequestsPerMinute = 2, maxTokensPerMinute = 120000\<rparr> \<and>
   \<not> tokensUsed (run \<lparr>maxConcurrent = 4, maxRequestsPerMinute = 60, maxTokensPerMinute = - 1\<rparr> [])
     \<le> maxTokensPerMinute \<lparr>maxConcurrent = 4, maxRequestsPerMinute = 60, maxTokensPerMinute = - 1\<rparr>"
  by (simp add: limiter_eval window_entries_def)

section \<open>The retry wrapper\<close>


lemma next_delay_int: "next_delay d = min 8000 (d * 2)"
proof -
  have "rat_of_int d * 2 = rat_of_int (d * 2)" by simp
  then have "round (rat_of_int d * 2) = d * 2" by (simp only: round_of_int)
  then show ?thesis by (simp add: next_delay_def)
qed

lemma next_delay_doubling:
  "next_delay (min 8000 (500 * 2 ^ a)) = min 8000 (500 * 2 ^ Suc a)"
  by (simp add: next_delay_int min_def)

text \<open>
  What the loop computes when it is entered after \<open>a\<close> failed invocations with the
  delay that \<open>a\<close> doublings of 500 give: it makes invocations \<open>a\<close> to \<open>n - 1\<close>, all but
  the last of them failing with a retriable error while retries remain, and ends with
  what the last invocation did.
\<close>

lemma loop_spec:
  assumes "withRetry_loop f rnd R a d ws = (out, n, bk)" and "d = min 8000 (500 * 2 ^ a)"
  shows "a < n \<and> out = f (n - 1) \<and>
         (\<forall>k. a \<le> k \<and> k < n - 1 \<longrightarrow> (\<exists>e. f k = Inl e \<and> retriable e \<and> of_nat (Suc k) \<le> R)) \<and>
         (\<forall>e. out = Inl e \<longrightarrow> \<not> retriable e \<or> of_nat n > R) \<and>
         bk = ws @ map (\<lambda>k. (min 8000 (500 * 2 ^ k), min 8000 (500 * 2 ^ k) + \<lfloor>rnd k * 200\<rfloor>))
                      [a..<n - 1]"
  using assms
proof (induction f rnd R a d ws arbitrary: out n bk rule: withRetry_loop.induct)
  case (1 f rnd R a d ws)
  note eq = withRetry_loop.simps [of f rnd R a d ws]
  show ?case
  proof (cases "f a")
    case (Inr v)
    then have "out = Inr v" "n = Suc a" "bk = ws" using "1.prems"(1) eq by simp_all
    then show ?thesis using Inr by auto
  next
    case (Inl err)
    show ?thesis
    proof (cases "\<not> retriable err \<or> of_nat (Suc a) > R")
      case True
      then have "out = Inl err" "n = Suc a" "bk = ws" using "1.prems"(1) eq Inl by auto
      then show ?thesis using Inl True by auto
    next
      case False
      let ?ws = "ws @ [(d, d + \<lfloor>rnd a * 200\<rfloor>)]"
      have rec: "withRetry_loop f rnd R (Suc a) (next_delay d) ?ws = (out, n, bk)"
        using "1.prems"(1) eq Inl False by simp
      have d': "next_delay d = min 8000 (500 * 2 ^ Suc a)"
        using "1.prems"(2) by (simp only: next_delay_doubling)
      note ih = "1.IH" [OF Inl False rec d']
      have lt: "a < n - 1" using ih by linarith
      have upt: "[a..<n - 1] = a # [Suc a..<n - 1]" using lt by (simp add: upt_conv_Cons)
      have first: "\<exists>e. f a = Inl e \<and> retriable e \<and> of_nat (Suc a) \<le> R"
        using Inl False by auto
      have mid: "\<forall>k. a \<le> k \<and> k < n - 1 \<longrightarrow> (\<exists>e. f k = Inl e \<and> retriable e \<and> of_nat (Suc k) \<le> R)"
      proof (intro allI impI)
        fix k assume k: "a \<le> k \<and> k < n - 1"
        show "\<exists>e. f k = Inl e \<and> retriable e \<and> of_nat (Suc k) \<le> R"
        proof (cases "k = a")
          case True
          then show ?thesis using first by simp
        next
          case False
          then have "Suc a \<le> k \<and> k < n - 1" using k by simp
          then show ?thesis using ih by blast
        qed
      qed
      have "bk = ?ws @ map (\<lambda>k. (min 8000 (500 * 2 ^ k), min 8000 (500 * 2 ^ k) + \<lfloor>rnd k * 200\<rfloor>))
                      [Suc a..<n - 1]"
        using ih by blast
      then have lg: "bk = ws @ map (\<lambda>k. (min 8000 (500 * 2 ^ k), min 8000 (500 * 2 ^ k) + \<lfloor>rnd k * 200\<rfloor>))
                      [a..<n - 1]"
        using "1.prems"(2) by (simp only: upt) simp
      show ?thesis using ih mid lg by simp
    qed
  qed
qed

lemma withRetry_spec:
  assumes "withRetry f rnd R = (out, n, bk)"
  shows "0 < n \<and> out = f (n - 1) \<and>
         (\<forall>k. k < n - 1 \<longrightarrow> (\<exists>e. f k = Inl e \<and> retriable e \<and> of_nat (Suc k) \<le> R)) \<and>
         (\<forall>e. out = Inl e \<longrightarrow> \<not> retriable e \<or> of_nat n > R) \<and>
         bk = map (\<lambda>k. (min 8000 (500 * 2 ^ k), min 8000 (500 * 2 ^ k) + \<lfloor>rnd k * 200\<rfloor>))
                  [0..<n - 1]"
  using loop_spec [of f rnd R 0 500 "[]" out n bk] assms
  by (simp add: withRetry_def)

lemma withRetry_parts:
  "withRetry f rnd R = (outcome (withRetry f rnd R), invocations (withRetry f rnd R),
     backoff (withRetry f rnd R))"
  by (simp add: outcome_def invocations_def backoff_def)


lemma sorted_map_upt:
  fixes h :: "nat \<Rightarrow> int"
  assumes "\<And>i j. i \<le> j \<Longrightarrow> h i \<le> h j"
  shows "sorted (map h [0..<m])"
  by (simp add: sorted_iff_nth_mono assms)

lemma capped_doubling_mono:
  "i \<le> j \<Longrightarrow> min 8000 (500 * 2 ^ i) \<le> min (8000::int) (500 * 2 ^ j)"
proof -
  assume "i \<le> j"
  then have "(2::int) ^ i \<le> 2 ^ j" by (simp add: power_increasing)
  then have "(500::int) * 2 ^ i \<le> 500 * 2 ^ j" by simp
  then show ?thesis by (intro min.mono order_refl)
qed

lemma jitter_range:
  fixes x :: rat
  assumes "0 \<le> x" "x < 1"
  shows "0 \<le> \<lfloor>x * 200\<rfloor> \<and> \<lfloor>x * 200\<rfloor> < 200"
proof -
  have "0 \<le> x * 200" "x * 200 < 200" using assms by simp_all
  then show ?thesis by (simp add: floor_less_iff)
qed


text \<open>
  C5. Where \<^verbatim>\<open>Math.random()\<close> yields values in \<open>[0, 1)\<close>: \<^verbatim>\<open>withRetry\<close> waits once
  before each retry; the base delay of wait number \<open>k\<close> (from 0) is 500 ms doubled \<open>k\<close>
  times and capped at 8000 ms, so 500 ms before the first retry; the time waited is
  the base delay plus a jitter that is a whole number in \<open>[0, 200)\<close>; and the base
  delays do not decrease from one wait to the next.
\<close>

theorem withRetry_backoff:
  assumes "\<forall>k. 0 \<le> rnd k \<and> rnd k < 1"
  shows "length (backoff (withRetry f rnd R)) = invocations (withRetry f rnd R) - 1 \<and>
         (\<forall>k. k < length (backoff (withRetry f rnd R)) \<longrightarrow>
            fst (backoff (withRetry f rnd R) ! k) = min 8000 (500 * 2 ^ k) \<and>
            snd (backoff (withRetry f rnd R) ! k)
              = fst (backoff (withRetry f rnd R) ! k) + \<lfloor>rnd k * 200\<rfloor> \<and>
            0 \<le> \<lfloor>rnd k * 200\<rfloor> \<and> \<lfloor>rnd k * 200\<rfloor> < 200) \<and>
         sorted (map fst (backoff (withRetry f rnd R)))"
proof -
  let ?n = "invocations (withRetry f rnd R)"
  let ?g = "\<lambda>k. (min 8000 (500 * 2 ^ k), min 8000 (500 * 2 ^ k) + \<lfloor>rnd k * 200\<rfloor>)"
  have bk: "backoff (withRetry f rnd R) = map ?g [0..<?n - 1]"
    using withRetry_spec [OF withRetry_parts [of f rnd R]] by blast
  have 1: "length (backoff (withRetry f rnd R)) = ?n - 1" by (simp add: bk)
  have 2: "fst (backoff (withRetry f rnd R) ! k) = min 8000 (500 * 2 ^ k) \<and>
            snd (backoff (withRetry f rnd R) ! k)
              = fst (backoff (withRetry f rnd R) ! k) + \<lfloor>rnd k * 200\<rfloor> \<and>
            0 \<le> \<lfloor>rnd k * 200\<rfloor> \<and> \<lfloor>rnd k * 200\<rfloor> < 200"
    if "k < length (backoff (withRetry f rnd R))" for k
    using that jitter_range [of "rnd k"] assms by (simp add: bk)
  have "map fst (backoff (withRetry f rnd R)) = map (\<lambda>k. min 8000 (500 * 2 ^ k)) [0..<?n - 1]"
    by (simp add: bk)
  then have 3: "sorted (map fst (backoff (withRetry f rnd R)))"
    by (simp only: sorted_map_upt [OF capped_doubling_mono])
  show ?thesis using 1 2 3 by blast
qed

theorem withRetry_backoff_witness:
  "(0::rat) \<le> 1 / 2 \<and> (1 / 2 :: rat) < 1 \<and>
   invocations (withRetry (\<lambda>k. Inl \<lparr>is_Error = True, message = ''Internal Server Error'', as_string = ''Error: Internal Server Error'', status = JNum 500, response_status = JUndefined\<rparr> :: thrown + nat) (\<lambda>k. 1 / 2) 6) = 7 \<and>
   backoff (withRetry (\<lambda>k. Inl \<lparr>is_Error = True, message = ''Internal Server Error'', as_string = ''Error: Internal Server Error'', status = JNum 500, response_status = JUndefined\<rparr> :: thrown + nat) (\<lambda>k. 1 / 2) 6) =
     [(500, 600), (1000, 1100), (2000, 2100), (4000, 4100), (8000, 8100), (8000, 8100)] \<and>
   sorted (map fst (backoff (withRetry (\<lambda>k. Inl \<lparr>is_Error = True, message = ''Internal Server Error'', as_string = ''Error: Internal Server Error'', status = JNum 500, response_status = JUndefined\<rparr> :: thrown + nat) (\<lambda>k. 1 / 2) 6)))"
  using withRetry_backoff
    [where rnd = "\<lambda>k. 1 / 2" and f = "\<lambda>k. Inl \<lparr>is_Error = True, message = ''Internal Server Error'', as_string = ''Error: Internal Server Error'', status = JNum 500, response_status = JUndefined\<rparr> :: thrown + nat" and R = 6]
  by (simp add: invocations_def backoff_def withRetry_def withRetry_loop.simps retriable_def
      nullish_def next_delay_int Let_def)

section \<open>Trace file names\<close>


lemma sanitize_length: "length (sanitize s) = length s"
  by (simp add: sanitize_def)







text \<open>The restriction on underscores is needed: the separator is made of underscores,
  so a model name that ends with one can take over the start of a test id.\<close>

lemma trace_name_separator_collision:
  "trace_name
     \<lparr>testId = ''b'', model = ''a_'', provider_id = ''p'', prompt = ''q'',
      response = ''x'', raw = None, score = 1, latencyMs = 5, expected = None, error = None\<rparr> =
   trace_name
     \<lparr>testId = ''_b'', model = ''a'', provider_id = ''p'', prompt = ''q'',
      response = ''x'', raw = None, score = 1, latencyMs = 5, expected = None, error = None\<rparr>"
  by (simp add: trace_name_def sanitize_def safe_char_def isFail_def)

section \<open>The aggregator\<close>

lemma foldl_add_score:
  "foldl (\<lambda>acc r. acc + score r) a rs = a + sum_list (map score rs)"
  by (induction rs arbitrary: a) (simp_all add: add.assoc)

lemma map_of_overwrite:
  "map_of (map (\<lambda>(k, v). if k = key then (k, new) else (k, v)) bm) m =
     (if m = key then map_option (\<lambda>v. new) (map_of bm m) else map_of bm m)"
  by (induction bm) auto

lemma map_of_tally:
  assumes "model r \<notin> set object_prototype_keys"
  shows "map_of (tally bm r) m =
     (if m = model r
      then Some (case map_of bm m of None \<Rightarrow> (1, score r) | Some (n, s) \<Rightarrow> (n + 1, s + score r))
      else map_of bm m)"
proof (cases "map_of bm (model r)")
  case None
  then have "tally bm r = bm @ [(model r, (1, 0 + score r))]"
    using assms by (simp add: tally_def)
  then show ?thesis using None by (auto simp add: map_add_def split: option.splits)
next
  case (Some v)
  obtain n s where v: "v = (n, s)" by (cases v)
  have "tally bm r = map (\<lambda>(k, v). if k = model r then (k, (n + 1, s + score r)) else (k, v)) bm"
    using Some v by (simp add: tally_def)
  then show ?thesis using Some v by (simp add: map_of_overwrite)
qed

lemma map_of_foldl_tally:
  assumes "\<forall>r\<in>set rs. model r \<notin> set object_prototype_keys"
  shows "map_of (foldl tally bm rs) m =
     (if filter (\<lambda>r. model r = m) rs = [] then map_of bm m
      else Some (case map_of bm m of
                   None \<Rightarrow> (length (filter (\<lambda>r. model r = m) rs),
                            sum_list (map score (filter (\<lambda>r. model r = m) rs)))
                 | Some (n, s) \<Rightarrow> (n + length (filter (\<lambda>r. model r = m) rs),
                                  s + sum_list (map score (filter (\<lambda>r. model r = m) rs)))))"
  using assms
proof (induction rs arbitrary: bm)
  case Nil
  then show ?case by simp
next
  case (Cons r rs)
  have r: "model r \<notin> set object_prototype_keys" and rs: "\<forall>r\<in>set rs. model r \<notin> set object_prototype_keys"
    using Cons.prems by simp_all
  show ?case
    using Cons.IH [OF rs, of "tally bm r"] map_of_tally [OF r, of bm m]
    by (auto simp add: add.assoc split: option.splits)
qed

text \<open>
  Away from the inherited keys the aggregator computes the means: the entry of a model
  that has results holds their number and the arithmetic mean of their scores, a model
  without results has no entry, and the overall average is the mean of all scores, 0
  for the empty list.
\<close>

lemma summarize_means:
  assumes "\<forall>r\<in>set rs. model r \<notin> set object_prototype_keys"
  shows "map_of (byModel (summarize rs)) m =
           (if filter (\<lambda>r. model r = m) rs = [] then None
            else Some \<lparr>tests = length (filter (\<lambda>r. model r = m) rs),
                       avgScore = sum_list (map score (filter (\<lambda>r. model r = m) rs))
                                    / of_nat (length (filter (\<lambda>r. model r = m) rs))\<rparr>)"
    and "overallAvg (summarize rs) =
           (if rs = [] then 0 else sum_list (map score rs) / of_nat (length rs))"
proof -
  let ?g = "\<lambda>(n :: nat, s :: rat). \<lparr>tests = n, avgScore = (if n \<noteq> 0 then s / of_nat n else 0)\<rparr>"
  have "byModel (summarize rs) = map (\<lambda>(k, v). (k, ?g v)) (foldl tally [] rs)"
    by (simp add: summarize_def case_prod_unfold)
  then have "map_of (byModel (summarize rs)) m = map_option ?g (map_of (foldl tally [] rs) m)"
    by (simp add: map_of_map)
  then show "map_of (byModel (summarize rs)) m =
           (if filter (\<lambda>r. model r = m) rs = [] then None
            else Some \<lparr>tests = length (filter (\<lambda>r. model r = m) rs),
                       avgScore = sum_list (map score (filter (\<lambda>r. model r = m) rs))
                                    / of_nat (length (filter (\<lambda>r. model r = m) rs))\<rparr>)"
    using map_of_foldl_tally [OF assms, of "[]" m] by simp
  show "overallAvg (summarize rs) =
           (if rs = [] then 0 else sum_list (map score rs) / of_nat (length rs))"
    by (simp add: summarize_def foldl_add_score)
qed

text \<open>
  C8. On the list of the spec, two results of model A with scores 1 and 0 and one of
  model B with score 0.5, the aggregator yields the averages 0.5, 0.5 and 0.5. The
  claim for every result list does not hold of the code: a model whose name is a
  property name of \<^verbatim>\<open>Object.prototype\<close>, such as \<^verbatim>\<open>toString\<close>, gets no entry in
  \<open>byModel\<close> at all, although it has a result with score 1 and the overall average
  counts that result.
\<close>

theorem summarize_inherited_key:
  "summarize
     [\<lparr>testId = ''t1'', model = ''A'', provider_id = ''p'', prompt = ''q'',
        response = ''x'', raw = None, score = 1, latencyMs = 5, expected = None, error = None\<rparr>,
      \<lparr>testId = ''t2'', model = ''A'', provider_id = ''p'', prompt = ''q'',
        response = ''x'', raw = None, score = 0, latencyMs = 5, expected = None, error = None\<rparr>,
      \<lparr>testId = ''t1'', model = ''B'', provider_id = ''p'', prompt = ''q'',
        response = ''x'', raw = None, score = 1 / 2, latencyMs = 5, expected = None, error = None\<rparr>] =
     \<lparr>byModel = [(''A'', \<lparr>tests = 2, avgScore = 1 / 2\<rparr>), (''B'', \<lparr>tests = 1, avgScore = 1 / 2\<rparr>)],
      overallAvg = 1 / 2\<rparr> \<and>
   summarize
     [\<lparr>testId = ''t1'', model = ''toString'', provider_id = ''p'', prompt = ''q'',
        response = ''x'', raw = None, score = 1, latencyMs = 5, expected = None, error = None\<rparr>] = \<lparr>byModel = [], overallAvg = 1\<rparr> \<and>
   map_of (byModel (summarize
     [\<lparr>testId = ''t1'', model = ''toString'', provider_id = ''p'', prompt = ''q'',
        response = ''x'', raw = None, score = 1, latencyMs = 5, expected = None, error = None\<rparr>])) ''toString'' = None"
  by (simp add: summarize_def tally_def object_prototype_keys_def)

section \<open>Runs of the orchestrator\<close>

lemma runNext_tasks:
  "mset (map fn (queue (runNext opts now s))) + mset (running (runNext opts now s))
     = mset (map fn (queue s)) + mset (running s) \<and>
   settled (runNext opts now s) = settled s"
  by (auto simp add: runNext_def Let_def prune_def split: list.splits)

lemma exec_tasks:
  assumes "mset (map fn (queue s)) + mset (running s) + mset (settled s) = mset ids"
  shows "mset (map fn (queue (exec opts s e))) + mset (running (exec opts s e))
           + mset (settled (exec opts s e))
         = mset (ids @ scheduled [e])"
proof (cases e)
  case (Schedule f k)
  then show ?thesis using assms by (simp add: schedule_def scheduled_def)
next
  case (Fire t now)
  show ?thesis
  proof (cases "t \<in> set (timers s)")
    case True
    then show ?thesis
      using assms Fire runNext_tasks [of opts now "s\<lparr>timers := remove1 t (timers s)\<rparr>"]
      by (simp add: scheduled_def)
  next
    case False
    then show ?thesis using assms Fire by (simp add: scheduled_def)
  qed
next
  case (Settle f)
  show ?thesis
  proof (cases "f \<in> set (running s)")
    case True
    then have h: "mset (remove1 f (running s)) + {#f#} = mset (running s)" by simp
    have q: "queue (settle f s) = queue s" "running (settle f s) = remove1 f (running s)"
      "settled (settle f s) = settled s @ [f]"
      using True by (simp_all add: settle_def)
    have "mset (map fn (queue s)) + mset (remove1 f (running s)) + mset (settled s @ [f])
        = mset (map fn (queue s)) + (mset (remove1 f (running s)) + {#f#}) + mset (settled s)"
      by (simp del: mset_remove1)
    also have "\<dots> = mset (map fn (queue s)) + mset (running s) + mset (settled s)"
      by (simp only: h)
    also have "\<dots> = mset ids" by (rule assms)
    finally show ?thesis using Settle by (simp only: exec.simps q) (simp add: scheduled_def)
  next
    case False
    then show ?thesis using assms Settle by (simp add: settle_def scheduled_def)
  qed
qed

lemma scheduled_append: "scheduled (xs @ ys) = scheduled xs @ scheduled ys"
  by (simp add: scheduled_def)

lemma run_tasks:
  "mset (map fn (queue (run opts evs))) + mset (running (run opts evs))
     + mset (settled (run opts evs)) = mset (scheduled evs)"
proof (induction evs rule: rev_induct)
  case Nil
  then show ?case by (simp add: run_Nil createLimiter_def scheduled_def)
next
  case (snoc e evs)
  then show ?case
    using exec_tasks [of "run opts evs" "scheduled evs" opts e]
    by (simp add: run_snoc scheduled_append)
qed

lemma scheduled_no_schedule: "no_schedule evs \<Longrightarrow> scheduled evs = []"
  by (induction evs) (auto simp add: no_schedule_def scheduled_def split: event.splits)

lemma scheduled_schedule_all: "scheduled (schedule_all options) = [0..<length (units options)]"
proof -
  have "scheduled (map (\<lambda>(u, (m, t)). Schedule u (Some (estimateTokens (tc_prompt t)))) ps)
          = map fst ps" for ps :: "(nat \<times> ModelEntry \<times> TestCase) list"
    by (induction ps) (auto simp add: scheduled_def)
  then show ?thesis by (simp add: schedule_all_def)
qed

lemma settled_sub:
  assumes "no_schedule evs"
  shows "mset (settled (limiter_after options evs)) \<subseteq># mset [0..<length (units options)]"
proof -
  have "mset (map fn (queue (limiter_after options evs))) + mset (running (limiter_after options evs))
     + mset (settled (limiter_after options evs)) = mset [0..<length (units options)]"
    using run_tasks [of "limiter_opts options" "schedule_all options @ evs"] assms
    by (simp add: limiter_after_def scheduled_append scheduled_no_schedule scheduled_schedule_all)
  then show ?thesis by (metis mset_subset_eq_add_right)
qed

lemma length_units: "length (units options) = length (models options) * length (suite options)"
  by (simp add: units_def length_concat comp_def sum_list_triv)

lemma unit_task_names:
  "unit_task env options u m t = Inr r \<Longrightarrow> model r = m_name m \<and> testId r = tc_id t"
  by (auto simp add: unit_task_def try_block_def success_result_def failure_result_def
      split: sum.splits prod.splits option.splits)

lemma unit_task_failure:
  assumes "outcome (withRetry (complete env u) (random env u) (retries options)) = Inl err"
  shows "unit_task env options u m t =
           (case writeTrace env u (failure_result env u m t err) of
              Some err' \<Rightarrow> Inl err'
            | None \<Rightarrow> Inr (failure_result env u m t err))"
  using assms by (simp add: unit_task_def try_block_def)

lemma writes_fulfil:
  assumes "\<forall>u res. writeTrace env u res = None"
  shows "\<exists>res. unit_task env options u m t = Inr res"
  using assms by (cases "try_block env options u m t") (simp_all add: unit_task_def)

lemma writes_tasks_fulfil:
  assumes "\<forall>u res. writeTrace env u res = None"
  shows "tasks_fulfil env options"
  unfolding tasks_fulfil_def list_all_iff
proof
  fix u assume "u \<in> set [0..<length (units options)]"
  then have "u < length (units options)" by simp
  moreover obtain res where
    "unit_task env options u (fst (units options ! u)) (snd (units options ! u)) = Inr res"
    using writes_fulfil [OF assms] by blast
  ultimately show "case task_outcome env options u of Some (Inr res) \<Rightarrow> True | _ \<Rightarrow> False"
    by (simp add: task_outcome_def)
qed

lemma tasks_fulfil_Inr:
  assumes "tasks_fulfil env options" "u < length (units options)"
  shows "\<exists>res. unit_task env options u (fst (units options ! u)) (snd (units options ! u)) = Inr res"
proof -
  have "case task_outcome env options u of Some (Inr res) \<Rightarrow> True | _ \<Rightarrow> False"
    using assms unfolding tasks_fulfil_def list_all_iff by simp
  then show ?thesis using assms(2)
    by (auto simp add: task_outcome_def split: sum.splits)
qed

text \<open>The results array: the results of the fulfilled tasks among the settled ones.\<close>

lemma foldl_on_settled_fst:
  "fst (foldl (on_settled env options) st us) =
     fst st @ concat (map (\<lambda>u. case task_outcome env options u of Some (Inr res) \<Rightarrow> [res] | _ \<Rightarrow> []) us)"
proof (induction us arbitrary: st)
  case Nil
  then show ?case by simp
next
  case (Cons u us)
  show ?case
    by (simp add: Cons.IH) (simp add: on_settled_def split: option.splits sum.splits)
qed

lemma results_after_concat:
  "results_after env options evs =
     concat (map (\<lambda>u. case task_outcome env options u of Some (Inr res) \<Rightarrow> [res] | _ \<Rightarrow> [])
               (settled (limiter_after options evs)))"
  by (simp add: results_after_def run_after_def foldl_on_settled_fst)

lemma foldl_on_settled_snd_None:
  assumes "\<forall>u\<in>set us. \<exists>res. task_outcome env options u = Some (Inr res)"
    and "\<forall>cb c n res. onProgress options = Some cb \<longrightarrow> cb c n res = None"
  shows "snd (foldl (on_settled env options) (rs, None) us) = None"
  using assms(1)
proof (induction us arbitrary: rs)
  case Nil
  then show ?case by simp
next
  case (Cons u us)
  then obtain res where res: "task_outcome env options u = Some (Inr res)" by auto
  have "on_settled env options (rs, None) u = (rs @ [res], None)"
    using res assms(2) by (auto simp add: on_settled_def split: option.splits)
  then show ?case using Cons by simp
qed

lemma foldl_on_settled_snd_NoneD:
  "snd (foldl (on_settled env options) st us) = None \<Longrightarrow>
   snd st = None \<and> (\<forall>u\<in>set us. \<forall>e. task_outcome env options u \<noteq> Some (Inl e))"
proof (induction us arbitrary: st)
  case Nil
  then show ?case by simp
next
  case (Cons u us)
  then have ih: "snd (on_settled env options st u) = None"
    "\<forall>u\<in>set us. \<forall>e. task_outcome env options u \<noteq> Some (Inl e)"
    by auto
  from ih(1) have "snd st = None \<and> (\<forall>e. task_outcome env options u \<noteq> Some (Inl e))"
    by (auto simp add: on_settled_def split: option.splits sum.splits)
  then show ?case using ih(2) by simp
qed

lemma concat_filter_Inr:
  assumes "\<forall>u\<in>set us. task_outcome env options u = Some (T u)"
  shows "map Inr (concat (map (\<lambda>u. case task_outcome env options u of
                                      Some (Inr res) \<Rightarrow> [res] | _ \<Rightarrow> []) us))
         = filter (\<lambda>x. case x of Inr res \<Rightarrow> True | Inl e \<Rightarrow> False) (map T us)"
  using assms by (induction us) (auto split: sum.splits)

lemma settled_units:
  assumes "no_schedule evs"
  shows "set (settled (limiter_after options evs)) \<subseteq> {0..<length (units options)}"
  using set_mset_mono [OF settled_sub [OF assms, of options]] by simp

lemma results_after_filter:
  assumes "no_schedule evs"
  shows "map Inr (results_after env options evs) =
         filter (\<lambda>x. case x of Inr res \<Rightarrow> True | Inl e \<Rightarrow> False)
           (map (\<lambda>u. unit_task env options u (fst (units options ! u)) (snd (units options ! u)))
              (settled (limiter_after options evs)))"
  unfolding results_after_concat
proof (rule concat_filter_Inr, rule ballI)
  fix u assume "u \<in> set (settled (limiter_after options evs))"
  then have "u < length (units options)" using settled_units [OF assms, of options] by auto
  then show "task_outcome env options u =
      Some (unit_task env options u (fst (units options ! u)) (snd (units options ! u)))"
    by (simp add: task_outcome_def)
qed

lemma results_after_Inr:
  assumes "no_schedule evs" "tasks_fulfil env options"
  shows "map Inr (results_after env options evs) =
         map (\<lambda>u. unit_task env options u (fst (units options ! u)) (snd (units options ! u)))
           (settled (limiter_after options evs))"
proof -
  have "\<forall>x\<in>set (map (\<lambda>u. unit_task env options u (fst (units options ! u)) (snd (units options ! u)))
           (settled (limiter_after options evs))). case x of Inr res \<Rightarrow> True | Inl e \<Rightarrow> False"
  proof
    fix x assume "x \<in> set (map (\<lambda>u. unit_task env options u (fst (units options ! u))
        (snd (units options ! u))) (settled (limiter_after options evs)))"
    then obtain u where u: "u \<in> set (settled (limiter_after options evs))"
      "x = unit_task env options u (fst (units options ! u)) (snd (units options ! u))" by auto
    then have "u < length (units options)" using settled_units [OF assms(1), of options] by auto
    then show "case x of Inr res \<Rightarrow> True | Inl e \<Rightarrow> False"
      using tasks_fulfil_Inr [OF assms(2)] u(2) by fastforce
  qed
  then show ?thesis
    unfolding results_after_filter [OF assms(1)] by (simp only: filter_True)
qed

lemma first_rejection_None:
  assumes "no_schedule evs" "tasks_fulfil env options"
    and "\<forall>cb c n res. onProgress options = Some cb \<longrightarrow> cb c n res = None"
  shows "first_rejection env options evs = None"
  unfolding first_rejection_def run_after_def
proof (rule foldl_on_settled_snd_None [OF _ assms(3)], rule ballI)
  fix u assume "u \<in> set (settled (limiter_after options evs))"
  then have u: "u < length (units options)" using settled_units [OF assms(1), of options] by auto
  then show "\<exists>res. task_outcome env options u = Some (Inr res)"
    using tasks_fulfil_Inr [OF assms(2) u] by (simp add: task_outcome_def)
qed

lemma all_settled_mset:
  assumes "no_schedule evs" "all_settled options evs"
  shows "mset (settled (limiter_after options evs)) = mset [0..<length (units options)]"
proof -
  let ?st = "settled (limiter_after options evs)"
  let ?n = "length (units options)"
  have sub: "mset ?st \<subseteq># mset [0..<?n]" by (rule settled_sub [OF assms(1)])
  have "set [0..<?n] \<subseteq> set ?st"
    using assms(2) by (auto simp add: all_settled_def list_all_iff)
  then have "card (set [0..<?n]) \<le> card (set ?st)" by (intro card_mono) simp_all
  then have "?n \<le> length ?st" using card_length [of ?st] by simp
  then have "size (mset [0..<?n]) \<le> size (mset ?st)" by simp
  then show ?thesis using sub
    by (metis mset_subset_size not_less subset_mset.le_imp_less_or_eq)
qed

lemma fulfilled_tasks_fulfil:
  assumes "first_rejection env options evs = None" "all_settled options evs"
  shows "tasks_fulfil env options"
  unfolding tasks_fulfil_def list_all_iff
proof
  fix u assume "u \<in> set [0..<length (units options)]"
  then have u: "u < length (units options)" "u \<in> set (settled (limiter_after options evs))"
    using assms(2) by (simp_all add: all_settled_def list_all_iff)
  have "\<forall>e. task_outcome env options u \<noteq> Some (Inl e)"
    using foldl_on_settled_snd_NoneD [of env options "([], None)" "settled (limiter_after options evs)"]
      assms(1) u(2)
    by (simp add: first_rejection_def run_after_def)
  then show "case task_outcome env options u of Some (Inr res) \<Rightarrow> True | _ \<Rightarrow> False"
    using u(1) by (auto simp add: task_outcome_def split: sum.splits)
qed

lemma enumerate_units:
  "map (\<lambda>u. T u (fst (us ! u)) (snd (us ! u))) [0..<length us]
     = map (\<lambda>(u, m, t). T u m t) (enumerate 0 us)"
  by (rule nth_equalityI) (simp_all add: nth_enumerate_eq case_prod_unfold)

lemma length_trace_name:
  "length (trace_name r) =
     length (model r) + 2 + length (testId r) + (if isFail r then 6 else 0) + 5"
  by (simp add: trace_name_def sanitize_def)

lemma unit_pair:
  assumes "unit_task env options u m t = Inr res"
  shows "(case unit_task env options u m t of Inr r \<Rightarrow> (model r, testId r) | Inl x \<Rightarrow> ([], []))
     = (m_name m, tc_id t)"
  using unit_task_names [OF assms] assms by simp

lemma runBenchmark_healthy:
  assumes "no_schedule evs" "prepare env = None" "tasks_fulfil env options"
    and "\<forall>cb c n res. onProgress options = Some cb \<longrightarrow> cb c n res = None"
  shows "runBenchmark env options evs =
       (if all_settled options evs
        then (case writeReport env (results_after env options evs) of
                Some e \<Rightarrow> Rejected e
              | None \<Rightarrow> Fulfilled \<lparr>out_results = results_after env options evs,
                                   out_summary = summarize (results_after env options evs)\<rparr>)
        else Pending)"
  using first_rejection_None [OF assms(1,3,4)] assms(2) by (simp add: runBenchmark_def)

lemma runBenchmark_Fulfilled:
  assumes "runBenchmark env options evs = Fulfilled out"
  shows "first_rejection env options evs = None \<and> all_settled options evs \<and>
         out_results out = results_after env options evs"
  using assms by (auto simp add: runBenchmark_def split: option.splits if_splits)

lemma settled_results:
  assumes ns: "no_schedule evs" and fin: "all_settled options evs"
    and tf: "tasks_fulfil env options"
  shows "length (results_after env options evs) = length (models options) * length (suite options) \<and>
        mset (map Inr (results_after env options evs)) =
          mset (map (\<lambda>(u, m, t). unit_task env options u m t) (enumerate 0 (units options))) \<and>
        mset (map (\<lambda>r. (model r, testId r)) (results_after env options evs)) =
          mset (map (\<lambda>(m, t). (m_name m, tc_id t)) (units options))"
proof -
  let ?st = "settled (limiter_after options evs)"
  let ?n = "length (units options)"
  let ?T = "\<lambda>u. unit_task env options u (fst (units options ! u)) (snd (units options ! u))"
  let ?all = "map (\<lambda>(u, m, t). unit_task env options u m t) (enumerate 0 (units options))"
  let ?P = "\<lambda>x :: thrown + TestResult. case x of Inr r \<Rightarrow> (model r, testId r) | Inl e \<Rightarrow> ([], [])"
  let ?g = "\<lambda>u. (m_name (fst (units options ! u)), tc_id (snd (units options ! u)))"
  have res: "map Inr (results_after env options evs) = map ?T ?st"
    by (rule results_after_Inr [OF ns tf])
  have all: "map ?T [0..<?n] = ?all" by (rule enumerate_units)
  have eq: "mset ?st = mset [0..<?n]" by (rule all_settled_mset [OF ns fin])
  have "length (results_after env options evs) = length ?st"
    using arg_cong [OF res, of length] by simp
  moreover have "length ?st = ?n" using mset_eq_length [OF eq] by simp
  ultimately have a: "length (results_after env options evs)
      = length (models options) * length (suite options)"
    by (simp add: length_units)
  have "image_mset ?T (mset ?st) = image_mset ?T (mset [0..<?n])" by (simp only: eq)
  then have b: "mset (map Inr (results_after env options evs)) = mset ?all"
    unfolding res all [symmetric] by simp
  have pg: "?P (?T u) = ?g u" if "u \<in> set ?st" for u
  proof -
    have "u < ?n" using that settled_units [OF ns, of options] by auto
    then obtain r where "?T u = Inr r" using tasks_fulfil_Inr [OF tf] by blast
    then show ?thesis by (rule unit_pair)
  qed
  have "map (\<lambda>r. (model r, testId r)) (results_after env options evs)
          = map ?P (map Inr (results_after env options evs))"
    by simp
  also have "\<dots> = map (\<lambda>u. ?P (?T u)) ?st" by (simp only: res map_map comp_def)
  also have "\<dots> = map ?g ?st" using pg by (intro map_cong refl) 
  finally have "mset (map (\<lambda>r. (model r, testId r)) (results_after env options evs))
      = image_mset ?g (mset ?st)"
    by simp
  also have "\<dots> = mset (map ?g [0..<?n])" by (simp only: eq mset_map)
  also have "map ?g [0..<?n] = map (\<lambda>(m, t). (m_name m, tc_id t)) (units options)"
    by (rule nth_equalityI) (simp_all add: case_prod_unfold)
  finally show ?thesis using a b by simp
qed

text \<open>
  C6 (as amended). In a run where only the limiter's callbacks and the settling of tasks
  follow the scheduling loops: every unit settles at most once, and the results array
  holds at most one entry per settled task, each the result of a distinct unit. No
  task rejects when every trace write returns. Where no task rejects, once all units
  have settled the array has exactly \<open>models.length \<times> suite.length\<close> entries, is a
  permutation of the results of the units, and holds one entry per (model, test) pair
  of the cross product, whether or not completion calls failed. Where moreover the
  statements before the loops and the progress callback return, the promise of
  \<^verbatim>\<open>runBenchmark\<close> is pending until all units have settled and is then fulfilled with
  the results, or rejected with what writing the report throws. In every run, a
  fulfilled promise means that all units have settled and carries exactly
  \<open>models.length \<times> suite.length\<close> results.
\<close>

theorem runBenchmark_results:
  assumes "no_schedule evs"
  shows "mset (settled (limiter_after options evs)) \<subseteq># mset [0..<length (units options)] \<and>
     length (results_after env options evs) \<le> length (settled (limiter_after options evs)) \<and>
     mset (map Inr (results_after env options evs)) \<subseteq>#
       mset (map (\<lambda>(u, m, t). unit_task env options u m t) (enumerate 0 (units options))) \<and>
     ((\<forall>u res. writeTrace env u res = None) \<longrightarrow> tasks_fulfil env options) \<and>
     (tasks_fulfil env options \<and> all_settled options evs \<longrightarrow>
        length (results_after env options evs) = length (models options) * length (suite options) \<and>
        mset (map Inr (results_after env options evs)) =
          mset (map (\<lambda>(u, m, t). unit_task env options u m t) (enumerate 0 (units options))) \<and>
        mset (map (\<lambda>r. (model r, testId r)) (results_after env options evs)) =
          mset (map (\<lambda>(m, t). (m_name m, tc_id t)) (units options))) \<and>
     (prepare env = None \<and> tasks_fulfil env options \<and>
      (\<forall>cb c n res. onProgress options = Some cb \<longrightarrow> cb c n res = None) \<longrightarrow>
        runBenchmark env options evs =
          (if all_settled options evs
           then (case writeReport env (results_after env options evs) of
                   Some e \<Rightarrow> Rejected e
                 | None \<Rightarrow> Fulfilled \<lparr>out_results = results_after env options evs,
                                      out_summary = summarize (results_after env options evs)\<rparr>)
           else Pending)) \<and>
     (\<forall>out. runBenchmark env options evs = Fulfilled out \<longrightarrow>
        all_settled options evs \<and> out_results out = results_after env options evs \<and>
        length (out_results out) = length (models options) * length (suite options))"
proof -
  let ?st = "settled (limiter_after options evs)"
  let ?n = "length (units options)"
  let ?T = "\<lambda>u. unit_task env options u (fst (units options ! u)) (snd (units options ! u))"
  let ?all = "map (\<lambda>(u, m, t). unit_task env options u m t) (enumerate 0 (units options))"
  let ?isr = "\<lambda>x :: thrown + TestResult. case x of Inr res \<Rightarrow> True | Inl e \<Rightarrow> False"
  have flt: "map Inr (results_after env options evs) = filter ?isr (map ?T ?st)"
    by (rule results_after_filter [OF assms])
  have all: "map ?T [0..<?n] = ?all" by (rule enumerate_units)
  have 1: "mset ?st \<subseteq># mset [0..<?n]" by (rule settled_sub [OF assms])
  have "length (results_after env options evs) = length (filter ?isr (map ?T ?st))"
    using arg_cong [OF flt, of length] by simp
  then have 2: "length (results_after env options evs) \<le> length ?st"
    using length_filter_le [of ?isr "map ?T ?st"] by simp
  have f1: "mset (filter ?isr (map ?T ?st)) \<subseteq># mset (map ?T ?st)"
    by (simp add: multiset_filter_subset)
  have "image_mset ?T (mset ?st) \<subseteq># image_mset ?T (mset [0..<?n])"
    by (rule image_mset_subseteq_mono [OF 1])
  then have f2: "mset (map ?T ?st) \<subseteq># mset (map ?T [0..<?n])" by simp
  have "mset (filter ?isr (map ?T ?st)) \<subseteq># mset (map ?T [0..<?n])"
    using f1 f2 by (rule subset_mset.order_trans)
  then have 3: "mset (map Inr (results_after env options evs)) \<subseteq># mset ?all"
    by (simp only: flt all)
  have 4: "tasks_fulfil env options" if "\<forall>u res. writeTrace env u res = None"
    using that by (rule writes_tasks_fulfil)
  note 5 = settled_results [OF assms, of options env]
  note 6 = runBenchmark_healthy [OF assms, of env options]
  have 7: "all_settled options evs \<and> out_results out = results_after env options evs \<and>
        length (out_results out) = length (models options) * length (suite options)"
    if "runBenchmark env options evs = Fulfilled out" for out
  proof -
    note f = runBenchmark_Fulfilled [OF that]
    then have "tasks_fulfil env options" using fulfilled_tasks_fulfil by blast
    then show ?thesis using f settled_results [OF assms, of options env] by simp
  qed
  show ?thesis using 1 2 3 4 5 6 7 by blast
qed

theorem runBenchmark_results_witness:
  "no_schedule [Fire SetImmediate 0, Fire SetImmediate 0, Settle 0, Fire SetImmediate 10, Settle 1] \<and>
   tasks_fulfil
     \<lparr>prepare = None,
       complete = (\<lambda>u k. if u = 0 then Inl \<lparr>is_Error = True, message = ''Internal Server Error'', as_string = ''Error: Internal Server Error'', status = JNum 500, response_status = JUndefined\<rparr> else Inr (''kia ora'', ''payload'')),
       random = (\<lambda>u k. 1 / 2), evaluateTest = (\<lambda>u txt. Inr 1), latency = (\<lambda>u. 5),
       writeTrace = (\<lambda>u res. None),
       writeReport = (\<lambda>rs. None)\<rparr>
     \<lparr>suite = [\<lparr>tc_id = ''t1'', tc_task = ''translate'', tc_prompt = ''hello'', tc_expected = Some ''kia ora'', tc_eval = Exact\<rparr>],
       models = [\<lparr>m_name = ''A'', m_provider_id = ''a/a''\<rparr>, \<lparr>m_name = ''B'', m_provider_id = ''b/b''\<rparr>],
       concurrency = 1, run_maxRequestsPerMinute = 60, run_maxTokensPerMinute = 120000,
       retries = 1, onProgress = None\<rparr> \<and>
   all_settled
     \<lparr>suite = [\<lparr>tc_id = ''t1'', tc_task = ''translate'', tc_prompt = ''hello'', tc_expected = Some ''kia ora'', tc_eval = Exact\<rparr>],
       models = [\<lparr>m_name = ''A'', m_provider_id = ''a/a''\<rparr>, \<lparr>m_name = ''B'', m_provider_id = ''b/b''\<rparr>],
       concurrency = 1, run_maxRequestsPerMinute = 60, run_maxTokensPerMinute = 120000,
       retries = 1, onProgress = None\<rparr>
     [Fire SetImmediate 0, Fire SetImmediate 0, Settle 0, Fire SetImmediate 10, Settle 1] \<and>
   \<not> all_settled
     \<lparr>suite = [\<lparr>tc_id = ''t1'', tc_task = ''translate'', tc_prompt = ''hello'', tc_expected = Some ''kia ora'', tc_eval = Exact\<rparr>],
       models = [\<lparr>m_name = ''A'', m_provider_id = ''a/a''\<rparr>, \<lparr>m_name = ''B'', m_provider_id = ''b/b''\<rparr>],
       concurrency = 1, run_maxRequestsPerMinute = 60, run_maxTokensPerMinute = 120000,
       retries = 1, onProgress = None\<rparr>
     [Fire SetImmediate 0, Fire SetImmediate 0, Settle 0] \<and>
   results_after
     \<lparr>prepare = None,
       complete = (\<lambda>u k. if u = 0 then Inl \<lparr>is_Error = True, message = ''Internal Server Error'', as_string = ''Error: Internal Server Error'', status = JNum 500, response_status = JUndefined\<rparr> else Inr (''kia ora'', ''payload'')),
       random = (\<lambda>u k. 1 / 2), evaluateTest = (\<lambda>u txt. Inr 1), latency = (\<lambda>u. 5),
       writeTrace = (\<lambda>u res. None),
       writeReport = (\<lambda>rs. None)\<rparr>
     \<lparr>suite = [\<lparr>tc_id = ''t1'', tc_task = ''translate'', tc_prompt = ''hello'', tc_expected = Some ''kia ora'', tc_eval = Exact\<rparr>],
       models = [\<lparr>m_name = ''A'', m_provider_id = ''a/a''\<rparr>, \<lparr>m_name = ''B'', m_provider_id = ''b/b''\<rparr>],
       concurrency = 1, run_maxRequestsPerMinute = 60, run_maxTokensPerMinute = 120000,
       retries = 1, onProgress = None\<rparr>
     [Fire SetImmediate 0, Fire SetImmediate 0, Settle 0, Fire SetImmediate 10, Settle 1] =
     [\<lparr>testId = ''t1'', model = ''A'', provider_id = ''a/a'', prompt = ''hello'', response = [],
       raw = None, score = 0, latencyMs = 5, expected = Some ''kia ora'',
       error = Some ''Internal Server Error''\<rparr>,
      \<lparr>testId = ''t1'', model = ''B'', provider_id = ''b/b'', prompt = ''hello'', response = ''kia ora'',
       raw = Some ''payload'', score = 1, latencyMs = 5, expected = Some ''kia ora'', error = None\<rparr>] \<and>
   runBenchmark
     \<lparr>prepare = None,
       complete = (\<lambda>u k. if u = 0 then Inl \<lparr>is_Error = True, message = ''Internal Server Error'', as_string = ''Error: Internal Server Error'', status = JNum 500, response_status = JUndefined\<rparr> else Inr (''kia ora'', ''payload'')),
       random = (\<lambda>u k. 1 / 2), evaluateTest = (\<lambda>u txt. Inr 1), latency = (\<lambda>u. 5),
       writeTrace = (\<lambda>u res. None),
       writeReport = (\<lambda>rs. None)\<rparr>
     \<lparr>suite = [\<lparr>tc_id = ''t1'', tc_task = ''translate'', tc_prompt = ''hello'', tc_expected = Some ''kia ora'', tc_eval = Exact\<rparr>],
       models = [\<lparr>m_name = ''A'', m_provider_id = ''a/a''\<rparr>, \<lparr>m_name = ''B'', m_provider_id = ''b/b''\<rparr>],
       concurrency = 1, run_maxRequestsPerMinute = 60, run_maxTokensPerMinute = 120000,
       retries = 1, onProgress = None\<rparr>
     [Fire SetImmediate 0, Fire SetImmediate 0, Settle 0, Fire SetImmediate 10, Settle 1] =
     Fulfilled \<lparr>out_results =
       [\<lparr>testId = ''t1'', model = ''A'', provider_id = ''a/a'', prompt = ''hello'', response = [],
       raw = None, score = 0, latencyMs = 5, expected = Some ''kia ora'',
       error = Some ''Internal Server Error''\<rparr>,
        \<lparr>testId = ''t1'', model = ''B'', provider_id = ''b/b'', prompt = ''hello'', response = ''kia ora'',
       raw = Some ''payload'', score = 1, latencyMs = 5, expected = Some ''kia ora'', error = None\<rparr>],
       out_summary = summarize
       [\<lparr>testId = ''t1'', model = ''A'', provider_id = ''a/a'', prompt = ''hello'', response = [],
       raw = None, score = 0, latencyMs = 5, expected = Some ''kia ora'',
       error = Some ''Internal Server Error''\<rparr>,
        \<lparr>testId = ''t1'', model = ''B'', provider_id = ''b/b'', prompt = ''hello'', response = ''kia ora'',
       raw = Some ''payload'', score = 1, latencyMs = 5, expected = Some ''kia ora'', error = None\<rparr>]\<rparr> \<and>
   runBenchmark
     \<lparr>prepare = None,
       complete = (\<lambda>u k. if u = 0 then Inl \<lparr>is_Error = True, message = ''Internal Server Error'', as_string = ''Error: Internal Server Error'', status = JNum 500, response_status = JUndefined\<rparr> else Inr (''kia ora'', ''payload'')),
       random = (\<lambda>u k. 1 / 2), evaluateTest = (\<lambda>u txt. Inr 1), latency = (\<lambda>u. 5),
       writeTrace = (\<lambda>u res. None),
       writeReport = (\<lambda>rs. None)\<rparr>
     \<lparr>suite = [\<lparr>tc_id = ''t1'', tc_task = ''translate'', tc_prompt = ''hello'', tc_expected = Some ''kia ora'', tc_eval = Exact\<rparr>],
       models = [\<lparr>m_name = ''A'', m_provider_id = ''a/a''\<rparr>, \<lparr>m_name = ''B'', m_provider_id = ''b/b''\<rparr>],
       concurrency = 1, run_maxRequestsPerMinute = 60, run_maxTokensPerMinute = 120000,
       retries = 1, onProgress = None\<rparr>
     [Fire SetImmediate 0, Fire SetImmediate 0, Settle 0] = Pending"
  using runBenchmark_results
    [where evs = "[Fire SetImmediate 0, Fire SetImmediate 0, Settle 0, Fire SetImmediate 10, Settle 1]"
       and options = "\<lparr>suite = [\<lparr>tc_id = ''t1'', tc_task = ''translate'', tc_prompt = ''hello'', tc_expected = Some ''kia ora'', tc_eval = Exact\<rparr>],
       models = [\<lparr>m_name = ''A'', m_provider_id = ''a/a''\<rparr>, \<lparr>m_name = ''B'', m_provider_id = ''b/b''\<rparr>],
       concurrency = 1, run_maxRequestsPerMinute = 60, run_maxTokensPerMinute = 120000,
       retries = 1, onProgress = None\<rparr>"
       and env = "\<lparr>prepare = None,
       complete = (\<lambda>u k. if u = 0 then Inl \<lparr>is_Error = True, message = ''Internal Server Error'', as_string = ''Error: Internal Server Error'', status = JNum 500, response_status = JUndefined\<rparr> else Inr (''kia ora'', ''payload'')),
       random = (\<lambda>u k. 1 / 2), evaluateTest = (\<lambda>u txt. Inr 1), latency = (\<lambda>u. 5),
       writeTrace = (\<lambda>u res. None),
       writeReport = (\<lambda>rs. None)\<rparr>"]
    runBenchmark_results
    [where evs = "[Fire SetImmediate 0, Fire SetImmediate 0, Settle 0]"
       and options = "\<lparr>suite = [\<lparr>tc_id = ''t1'', tc_task = ''translate'', tc_prompt = ''hello'', tc_expected = Some ''kia ora'', tc_eval = Exact\<rparr>],
       models = [\<lparr>m_name = ''A'', m_provider_id = ''a/a''\<rparr>, \<lparr>m_name = ''B'', m_provider_id = ''b/b''\<rparr>],
       concurrency = 1, run_maxRequestsPerMinute = 60, run_maxTokensPerMinute = 120000,
       retries = 1, onProgress = None\<rparr>"
       and env = "\<lparr>prepare = None,
       complete = (\<lambda>u k. if u = 0 then Inl \<lparr>is_Error = True, message = ''Internal Server Error'', as_string = ''Error: Internal Server Error'', status = JNum 500, response_status = JUndefined\<rparr> else Inr (''kia ora'', ''payload'')),
       random = (\<lambda>u k. 1 / 2), evaluateTest = (\<lambda>u txt. Inr 1), latency = (\<lambda>u. 5),
       writeTrace = (\<lambda>u res. None),
       writeReport = (\<lambda>rs. None)\<rparr>"]
  by (simp add: limiter_after_def schedule_all_def units_def estimateTokens_def limiter_opts_def
      results_after_def first_rejection_def run_after_def on_settled_def totalUnits_def
      task_outcome_def unit_task_def try_block_def success_result_def failure_result_def
      outcome_def withRetry_def withRetry_loop.simps retriable_def nullish_def next_delay_int
      error_text_def all_settled_def tasks_fulfil_def no_schedule_def runBenchmark_def
      length_trace_name isFail_def limiter_eval)

text \<open>
  The claim as stated fails where a trace cannot be written. The first test id has 300
  characters, so both trace file names of its unit exceed 255 characters and
  \<^verbatim>\<open>writeFileSync\<close> throws in the \<^verbatim>\<open>try\<close> block and again in the \<^verbatim>\<open>catch\<close>
  block: the task rejects, nothing is pushed for it, and the promise of
  \<^verbatim>\<open>runBenchmark\<close> is rejected while the second unit has not settled. Once both have
  settled the results array has one entry for two units.
\<close>

theorem runBenchmark_results_counterexample:
  "no_schedule [Fire SetImmediate 0, Settle 0, Fire SetImmediate 10, Settle 1] \<and>
   all_settled
     \<lparr>suite = [\<lparr>tc_id = replicate 300 (CHR ''a''), tc_task = ''translate'', tc_prompt = ''hello'', tc_expected = Some ''kia ora'', tc_eval = Exact\<rparr>,
                \<lparr>tc_id = ''t1'', tc_task = ''translate'', tc_prompt = ''hello'', tc_expected = Some ''kia ora'', tc_eval = Exact\<rparr>],
       models = [\<lparr>m_name = ''A'', m_provider_id = ''a/a''\<rparr>],
       concurrency = 1, run_maxRequestsPerMinute = 60, run_maxTokensPerMinute = 120000,
       retries = 0, onProgress = None\<rparr>
     [Fire SetImmediate 0, Settle 0, Fire SetImmediate 10, Settle 1] \<and>
   length (results_after
     \<lparr>prepare = None,
       complete = (\<lambda>u k. if u = 0 then Inl \<lparr>is_Error = True, message = ''Internal Server Error'', as_string = ''Error: Internal Server Error'', status = JNum 500, response_status = JUndefined\<rparr> else Inr (''kia ora'', ''payload'')),
       random = (\<lambda>u k. 1 / 2), evaluateTest = (\<lambda>u txt. Inr 1), latency = (\<lambda>u. 5),
       writeTrace = (\<lambda>u res. if 255 < length (trace_name res) then Some \<lparr>is_Error = True, message = ''ENAMETOOLONG: name too long'', as_string = ''Error: ENAMETOOLONG: name too long'', status = JUndefined, response_status = JUndefined\<rparr> else None),
       writeReport = (\<lambda>rs. None)\<rparr>
     \<lparr>suite = [\<lparr>tc_id = replicate 300 (CHR ''a''), tc_task = ''translate'', tc_prompt = ''hello'', tc_expected = Some ''kia ora'', tc_eval = Exact\<rparr>,
                \<lparr>tc_id = ''t1'', tc_task = ''translate'', tc_prompt = ''hello'', tc_expected = Some ''kia ora'', tc_eval = Exact\<rparr>],
       models = [\<lparr>m_name = ''A'', m_provider_id = ''a/a''\<rparr>],
       concurrency = 1, run_maxRequestsPerMinute = 60, run_maxTokensPerMinute = 120000,
       retries = 0, onProgress = None\<rparr>
     [Fire SetImmediate 0, Settle 0, Fire SetImmediate 10, Settle 1]) = 1 \<and>
   length (models
     \<lparr>suite = [\<lparr>tc_id = replicate 300 (CHR ''a''), tc_task = ''translate'', tc_prompt = ''hello'', tc_expected = Some ''kia ora'', tc_eval = Exact\<rparr>,
                \<lparr>tc_id = ''t1'', tc_task = ''translate'', tc_prompt = ''hello'', tc_expected = Some ''kia ora'', tc_eval = Exact\<rparr>],
       models = [\<lparr>m_name = ''A'', m_provider_id = ''a/a''\<rparr>],
       concurrency = 1, run_maxRequestsPerMinute = 60, run_maxTokensPerMinute = 120000,
       retries = 0, onProgress = None\<rparr>) *
   length (suite
     \<lparr>suite = [\<lparr>tc_id = replicate 300 (CHR ''a''), tc_task = ''translate'', tc_prompt = ''hello'', tc_expected = Some ''kia ora'', tc_eval = Exact\<rparr>,
                \<lparr>tc_id = ''t1'', tc_task = ''translate'', tc_prompt = ''hello'', tc_expected = Some ''kia ora'', tc_eval = Exact\<rparr>],
       models = [\<lparr>m_name = ''A'', m_provider_id = ''a/a''\<rparr>],
       concurrency = 1, run_maxRequestsPerMinute = 60, run_maxTokensPerMinute = 120000,
       retries = 0, onProgress = None\<rparr>) = 2 \<and>
   \<not> all_settled
     \<lparr>suite = [\<lparr>tc_id = replicate 300 (CHR ''a''), tc_task = ''translate'', tc_prompt = ''hello'', tc_expected = Some ''kia ora'', tc_eval = Exact\<rparr>,
                \<lparr>tc_id = ''t1'', tc_task = ''translate'', tc_prompt = ''hello'', tc_expected = Some ''kia ora'', tc_eval = Exact\<rparr>],
       models = [\<lparr>m_name = ''A'', m_provider_id = ''a/a''\<rparr>],
       concurrency = 1, run_maxRequestsPerMinute = 60, run_maxTokensPerMinute = 120000,
       retries = 0, onProgress = None\<rparr>
     [Fire SetImmediate 0, Settle 0] \<and>
   runBenchmark
     \<lparr>prepare = None,
       complete = (\<lambda>u k. if u = 0 then Inl \<lparr>is_Error = True, message = ''Internal Server Error'', as_string = ''Error: Internal Server Error'', status = JNum 500, response_status = JUndefined\<rparr> else Inr (''kia ora'', ''payload'')),
       random = (\<lambda>u k. 1 / 2), evaluateTest = (\<lambda>u txt. Inr 1), latency = (\<lambda>u. 5),
       writeTrace = (\<lambda>u res. if 255 < length (trace_name res) then Some \<lparr>is_Error = True, message = ''ENAMETOOLONG: name too long'', as_string = ''Error: ENAMETOOLONG: name too long'', status = JUndefined, response_status = JUndefined\<rparr> else None),
       writeReport = (\<lambda>rs. None)\<rparr>
     \<lparr>suite = [\<lparr>tc_id = replicate 300 (CHR ''a''), tc_task = ''translate'', tc_prompt = ''hello'', tc_expected = Some ''kia ora'', tc_eval = Exact\<rparr>,
                \<lparr>tc_id = ''t1'', tc_task = ''translate'', tc_prompt = ''hello'', tc_expected = Some ''kia ora'', tc_eval = Exact\<rparr>],
       models = [\<lparr>m_name = ''A'', m_provider_id = ''a/a''\<rparr>],
       concurrency = 1, run_maxRequestsPerMinute = 60, run_maxTokensPerMinute = 120000,
       retries = 0, onProgress = None\<rparr>
     [Fire SetImmediate 0, Settle 0] =
     Rejected \<lparr>is_Error = True, message = ''ENAMETOOLONG: name too long'', as_string = ''Error: ENAMETOOLONG: name too long'', status = JUndefined, response_status = JUndefined\<rparr>"
  by (simp add: limiter_after_def schedule_all_def units_def estimateTokens_def limiter_opts_def
      results_after_def first_rejection_def run_after_def on_settled_def totalUnits_def
      task_outcome_def unit_task_def try_block_def success_result_def failure_result_def
      outcome_def withRetry_def withRetry_loop.simps retriable_def nullish_def next_delay_int
      error_text_def all_settled_def tasks_fulfil_def no_schedule_def runBenchmark_def
      length_trace_name isFail_def limiter_eval)

text \<open>
  C7 (as amended). When the retried completion call of a unit ends by throwing \<open>err\<close>
  and the trace of the failure result is written, the task of the unit does not reject:
  it is fulfilled with a result whose score is 0, whose response is the empty string
  and whose error is the failure's message (\<^verbatim>\<open>err.message\<close> for an \<^verbatim>\<open>Error\<close>,
  \<^verbatim>\<open>String(err)\<close> otherwise); once the task has settled that result is in the results
  of the run; and where no task rejects and the statements before the loops, the
  progress callback and the writing of the report return, the promise of
  \<^verbatim>\<open>runBenchmark\<close> is not rejected.
\<close>

theorem unit_failure_recorded:
  "(outcome (withRetry (complete env u) (random env u) (retries options)) = Inl err \<and>
    writeTrace env u (failure_result env u m t err) = None \<longrightarrow>
      unit_task env options u m t = Inr (failure_result env u m t err) \<and>
      score (failure_result env u m t err) = 0 \<and>
      response (failure_result env u m t err) = [] \<and>
      error (failure_result env u m t err) = Some (error_text err) \<and>
      (is_Error err \<longrightarrow> error_text err = message err)) \<and>
   (no_schedule evs \<and> u \<in> set (settled (limiter_after options evs)) \<and>
    unit_task env options u (fst (units options ! u)) (snd (units options ! u)) = Inr r \<longrightarrow>
      r \<in> set (results_after env options evs)) \<and>
   (no_schedule evs \<and> prepare env = None \<and> tasks_fulfil env options \<and>
    (\<forall>cb c n res. onProgress options = Some cb \<longrightarrow> cb c n res = None) \<and>
    writeReport env (results_after env options evs) = None \<longrightarrow>
      runBenchmark env options evs \<noteq> Rejected e)"
proof -
  have a: "unit_task env options u m t = Inr (failure_result env u m t err)"
    if "outcome (withRetry (complete env u) (random env u) (retries options)) = Inl err"
      and "writeTrace env u (failure_result env u m t err) = None"
    using unit_task_failure [OF that(1), where m = m and t = t] that(2) by simp
  have b: "r \<in> set (results_after env options evs)"
    if ns: "no_schedule evs" and st: "u \<in> set (settled (limiter_after options evs))"
      and r: "unit_task env options u (fst (units options ! u)) (snd (units options ! u)) = Inr r"
  proof -
    have "Inr r \<in> set (filter (\<lambda>x. case x of Inr res \<Rightarrow> True | Inl e \<Rightarrow> False)
        (map (\<lambda>u. unit_task env options u (fst (units options ! u)) (snd (units options ! u)))
           (settled (limiter_after options evs))))"
      using st r by force
    then have "(Inr r :: thrown + TestResult) \<in> set (map Inr (results_after env options evs))"
      by (simp only: results_after_filter [OF ns])
    then show ?thesis by auto
  qed
  have c: "runBenchmark env options evs \<noteq> Rejected e"
    if "no_schedule evs" "prepare env = None" "tasks_fulfil env options"
      "\<forall>cb c n res. onProgress options = Some cb \<longrightarrow> cb c n res = None"
      "writeReport env (results_after env options evs) = None"
    using runBenchmark_healthy [OF that(1,2,3,4)] that(5) by simp
  show ?thesis using a b c by (simp add: error_text_def failure_result_def)
qed

theorem unit_failure_recorded_witness:
  "outcome (withRetry
     (complete
       \<lparr>prepare = None,
       complete = (\<lambda>u k. if u = 0 then Inl \<lparr>is_Error = True, message = ''Internal Server Error'', as_string = ''Error: Internal Server Error'', status = JNum 500, response_status = JUndefined\<rparr> else Inr (''kia ora'', ''payload'')),
       random = (\<lambda>u k. 1 / 2), evaluateTest = (\<lambda>u txt. Inr 1), latency = (\<lambda>u. 5),
       writeTrace = (\<lambda>u res. None),
       writeReport = (\<lambda>rs. None)\<rparr> 0)
     (random
       \<lparr>prepare = None,
       complete = (\<lambda>u k. if u = 0 then Inl \<lparr>is_Error = True, message = ''Internal Server Error'', as_string = ''Error: Internal Server Error'', status = JNum 500, response_status = JUndefined\<rparr> else Inr (''kia ora'', ''payload'')),
       random = (\<lambda>u k. 1 / 2), evaluateTest = (\<lambda>u txt. Inr 1), latency = (\<lambda>u. 5),
       writeTrace = (\<lambda>u res. None),
       writeReport = (\<lambda>rs. None)\<rparr> 0)
     (retries
       \<lparr>suite = [\<lparr>tc_id = ''t1'', tc_task = ''translate'', tc_prompt = ''hello'', tc_expected = Some ''kia ora'', tc_eval = Exact\<rparr>],
       models = [\<lparr>m_name = ''A'', m_provider_id = ''a/a''\<rparr>, \<lparr>m_name = ''B'', m_provider_id = ''b/b''\<rparr>],
       concurrency = 1, run_maxRequestsPerMinute = 60, run_maxTokensPerMinute = 120000,
       retries = 1, onProgress = None\<rparr>)) = Inl \<lparr>is_Error = True, message = ''Internal Server Error'', as_string = ''Error: Internal Server Error'', status = JNum 500, response_status = JUndefined\<rparr> \<and>
   writeTrace
     \<lparr>prepare = None,
       complete = (\<lambda>u k. if u = 0 then Inl \<lparr>is_Error = True, message = ''Internal Server Error'', as_string = ''Error: Internal Server Error'', status = JNum 500, response_status = JUndefined\<rparr> else Inr (''kia ora'', ''payload'')),
       random = (\<lambda>u k. 1 / 2), evaluateTest = (\<lambda>u txt. Inr 1), latency = (\<lambda>u. 5),
       writeTrace = (\<lambda>u res. None),
       writeReport = (\<lambda>rs. None)\<rparr> 0
     \<lparr>testId = ''t1'', model = ''A'', provider_id = ''a/a'', prompt = ''hello'', response = [],
       raw = None, score = 0, latencyMs = 5, expected = Some ''kia ora'',
       error = Some ''Internal Server Error''\<rparr> = None \<and>
   unit_task
     \<lparr>prepare = None,
       complete = (\<lambda>u k. if u = 0 then Inl \<lparr>is_Error = True, message = ''Internal Server Error'', as_string = ''Error: Internal Server Error'', status = JNum 500, response_status = JUndefined\<rparr> else Inr (''kia ora'', ''payload'')),
       random = (\<lambda>u k. 1 / 2), evaluateTest = (\<lambda>u txt. Inr 1), latency = (\<lambda>u. 5),
       writeTrace = (\<lambda>u res. None),
       writeReport = (\<lambda>rs. None)\<rparr>
     \<lparr>suite = [\<lparr>tc_id = ''t1'', tc_task = ''translate'', tc_prompt = ''hello'', tc_expected = Some ''kia ora'', tc_eval = Exact\<rparr>],
       models = [\<lparr>m_name = ''A'', m_provider_id = ''a/a''\<rparr>, \<lparr>m_name = ''B'', m_provider_id = ''b/b''\<rparr>],
       concurrency = 1, run_maxRequestsPerMinute = 60, run_maxTokensPerMinute = 120000,
       retries = 1, onProgress = None\<rparr>
     0 \<lparr>m_name = ''A'', m_provider_id = ''a/a''\<rparr>
     \<lparr>tc_id = ''t1'', tc_task = ''translate'', tc_prompt = ''hello'', tc_expected = Some ''kia ora'', tc_eval = Exact\<rparr> =
     Inr \<lparr>testId = ''t1'', model = ''A'', provider_id = ''a/a'', prompt = ''hello'', response = [],
       raw = None, score = 0, latencyMs = 5, expected = Some ''kia ora'',
       error = Some ''Internal Server Error''\<rparr> \<and>
   \<lparr>testId = ''t1'', model = ''A'', provider_id = ''a/a'', prompt = ''hello'', response = [],
       raw = None, score = 0, latencyMs = 5, expected = Some ''kia ora'',
       error = Some ''Internal Server Error''\<rparr>
     \<in> set (results_after
       \<lparr>prepare = None,
       complete = (\<lambda>u k. if u = 0 then Inl \<lparr>is_Error = True, message = ''Internal Server Error'', as_string = ''Error: Internal Server Error'', status = JNum 500, response_status = JUndefined\<rparr> else Inr (''kia ora'', ''payload'')),
       random = (\<lambda>u k. 1 / 2), evaluateTest = (\<lambda>u txt. Inr 1), latency = (\<lambda>u. 5),
       writeTrace = (\<lambda>u res. None),
       writeReport = (\<lambda>rs. None)\<rparr>
       \<lparr>suite = [\<lparr>tc_id = ''t1'', tc_task = ''translate'', tc_prompt = ''hello'', tc_expected = Some ''kia ora'', tc_eval = Exact\<rparr>],
       models = [\<lparr>m_name = ''A'', m_provider_id = ''a/a''\<rparr>, \<lparr>m_name = ''B'', m_provider_id = ''b/b''\<rparr>],
       concurrency = 1, run_maxRequestsPerMinute = 60, run_maxTokensPerMinute = 120000,
       retries = 1, onProgress = None\<rparr>
       [Fire SetImmediate 0, Settle 0])"
  using unit_failure_recorded
    [where env = "\<lparr>prepare = None,
       complete = (\<lambda>u k. if u = 0 then Inl \<lparr>is_Error = True, message = ''Internal Server Error'', as_string = ''Error: Internal Server Error'', status = JNum 500, response_status = JUndefined\<rparr> else Inr (''kia ora'', ''payload'')),
       random = (\<lambda>u k. 1 / 2), evaluateTest = (\<lambda>u txt. Inr 1), latency = (\<lambda>u. 5),
       writeTrace = (\<lambda>u res. None),
       writeReport = (\<lambda>rs. None)\<rparr>"
       and options = "\<lparr>suite = [\<lparr>tc_id = ''t1'', tc_task = ''translate'', tc_prompt = ''hello'', tc_expected = Some ''kia ora'', tc_eval = Exact\<rparr>],
       models = [\<lparr>m_name = ''A'', m_provider_id = ''a/a''\<rparr>, \<lparr>m_name = ''B'', m_provider_id = ''b/b''\<rparr>],
       concurrency = 1, run_maxRequestsPerMinute = 60, run_maxTokensPerMinute = 120000,
       retries = 1, onProgress = None\<rparr>"
       and u = 0 and err = "\<lparr>is_Error = True, message = ''Internal Server Error'', as_string = ''Error: Internal Server Error'', status = JNum 500, response_status = JUndefined\<rparr>"
       and m = "\<lparr>m_name = ''A'', m_provider_id = ''a/a''\<rparr>"
       and t = "\<lparr>tc_id = ''t1'', tc_task = ''translate'', tc_prompt = ''hello'', tc_expected = Some ''kia ora'', tc_eval = Exact\<rparr>"
       and evs = "[Fire SetImmediate 0, Settle 0]"
       and r = "\<lparr>testId = ''t1'', model = ''A'', provider_id = ''a/a'', prompt = ''hello'', response = [],
       raw = None, score = 0, latencyMs = 5, expected = Some ''kia ora'',
       error = Some ''Internal Server Error''\<rparr>"]
  by (simp add: limiter_after_def schedule_all_def units_def estimateTokens_def limiter_opts_def
      results_after_def first_rejection_def run_after_def on_settled_def totalUnits_def
      task_outcome_def unit_task_def try_block_def success_result_def failure_result_def
      outcome_def withRetry_def withRetry_loop.simps retriable_def nullish_def next_delay_int
      error_text_def all_settled_def tasks_fulfil_def no_schedule_def runBenchmark_def
      length_trace_name isFail_def limiter_eval)

text \<open>
  The claim as stated fails where the trace of the failure result cannot be written:
  the completion call fails with status 500, the \<^verbatim>\<open>catch\<close> block builds the failure
  result, and \<^verbatim>\<open>writeTrace\<close> throws on the file name of more than 255 characters. The
  task rejects, no result is recorded, and the promise of \<^verbatim>\<open>runBenchmark\<close> is
  rejected.
\<close>

theorem unit_failure_recorded_counterexample:
  "outcome (withRetry
     (complete
       \<lparr>prepare = None,
       complete = (\<lambda>u k. if u = 0 then Inl \<lparr>is_Error = True, message = ''Internal Server Error'', as_string = ''Error: Internal Server Error'', status = JNum 500, response_status = JUndefined\<rparr> else Inr (''kia ora'', ''payload'')),
       random = (\<lambda>u k. 1 / 2), evaluateTest = (\<lambda>u txt. Inr 1), latency = (\<lambda>u. 5),
       writeTrace = (\<lambda>u res. if 255 < length (trace_name res) then Some \<lparr>is_Error = True, message = ''ENAMETOOLONG: name too long'', as_string = ''Error: ENAMETOOLONG: name too long'', status = JUndefined, response_status = JUndefined\<rparr> else None),
       writeReport = (\<lambda>rs. None)\<rparr> 0)
     (random
       \<lparr>prepare = None,
       complete = (\<lambda>u k. if u = 0 then Inl \<lparr>is_Error = True, message = ''Internal Server Error'', as_string = ''Error: Internal Server Error'', status = JNum 500, response_status = JUndefined\<rparr> else Inr (''kia ora'', ''payload'')),
       random = (\<lambda>u k. 1 / 2), evaluateTest = (\<lambda>u txt. Inr 1), latency = (\<lambda>u. 5),
       writeTrace = (\<lambda>u res. if 255 < length (trace_name res) then Some \<lparr>is_Error = True, message = ''ENAMETOOLONG: name too long'', as_string = ''Error: ENAMETOOLONG: name too long'', status = JUndefined, response_status = JUndefined\<rparr> else None),
       writeReport = (\<lambda>rs. None)\<rparr> 0)
     (retries
       \<lparr>suite = [\<lparr>tc_id = replicate 300 (CHR ''a''), tc_task = ''translate'', tc_prompt = ''hello'', tc_expected = Some ''kia ora'', tc_eval = Exact\<rparr>],
       models = [\<lparr>m_name = ''A'', m_provider_id = ''a/a''\<rparr>],
       concurrency = 1, run_maxRequestsPerMinute = 60, run_maxTokensPerMinute = 120000,
       retries = 0, onProgress = None\<rparr>)) = Inl \<lparr>is_Error = True, message = ''Internal Server Error'', as_string = ''Error: Internal Server Error'', status = JNum 500, response_status = JUndefined\<rparr> \<and>
   unit_task
     \<lparr>prepare = None,
       complete = (\<lambda>u k. if u = 0 then Inl \<lparr>is_Error = True, message = ''Internal Server Error'', as_string = ''Error: Internal Server Error'', status = JNum 500, response_status = JUndefined\<rparr> else Inr (''kia ora'', ''payload'')),
       random = (\<lambda>u k. 1 / 2), evaluateTest = (\<lambda>u txt. Inr 1), latency = (\<lambda>u. 5),
       writeTrace = (\<lambda>u res. if 255 < length (trace_name res) then Some \<lparr>is_Error = True, message = ''ENAMETOOLONG: name too long'', as_string = ''Error: ENAMETOOLONG: name too long'', status = JUndefined, response_status = JUndefined\<rparr> else None),
       writeReport = (\<lambda>rs. None)\<rparr>
     \<lparr>suite = [\<lparr>tc_id = replicate 300 (CHR ''a''), tc_task = ''translate'', tc_prompt = ''hello'', tc_expected = Some ''kia ora'', tc_eval = Exact\<rparr>],
       models = [\<lparr>m_name = ''A'', m_provider_id = ''a/a''\<rparr>],
       concurrency = 1, run_maxRequestsPerMinute = 60, run_maxTokensPerMinute = 120000,
       retries = 0, onProgress = None\<rparr>
     0 \<lparr>m_name = ''A'', m_provider_id = ''a/a''\<rparr>
     \<lparr>tc_id = replicate 300 (CHR ''a''), tc_task = ''translate'', tc_prompt = ''hello'', tc_expected = Some ''kia ora'', tc_eval = Exact\<rparr> =
     Inl \<lparr>is_Error = True, message = ''ENAMETOOLONG: name too long'', as_string = ''Error: ENAMETOOLONG: name too long'', status = JUndefined, response_status = JUndefined\<rparr> \<and>
   all_settled
     \<lparr>suite = [\<lparr>tc_id = replicate 300 (CHR ''a''), tc_task = ''translate'', tc_prompt = ''hello'', tc_expected = Some ''kia ora'', tc_eval = Exact\<rparr>],
       models = [\<lparr>m_name = ''A'', m_provider_id = ''a/a''\<rparr>],
       concurrency = 1, run_maxRequestsPerMinute = 60, run_maxTokensPerMinute = 120000,
       retries = 0, onProgress = None\<rparr>
     [Fire SetImmediate 0, Settle 0] \<and>
   results_after
     \<lparr>prepare = None,
       complete = (\<lambda>u k. if u = 0 then Inl \<lparr>is_Error = True, message = ''Internal Server Error'', as_string = ''Error: Internal Server Error'', status = JNum 500, response_status = JUndefined\<rparr> else Inr (''kia ora'', ''payload'')),
       random = (\<lambda>u k. 1 / 2), evaluateTest = (\<lambda>u txt. Inr 1), latency = (\<lambda>u. 5),
       writeTrace = (\<lambda>u res. if 255 < length (trace_name res) then Some \<lparr>is_Error = True, message = ''ENAMETOOLONG: name too long'', as_string = ''Error: ENAMETOOLONG: name too long'', status = JUndefined, response_status = JUndefined\<rparr> else None),
       writeReport = (\<lambda>rs. None)\<rparr>
     \<lparr>suite = [\<lparr>tc_id = replicate 300 (CHR ''a''), tc_task = ''translate'', tc_prompt = ''hello'', tc_expected = Some ''kia ora'', tc_eval = Exact\<rparr>],
       models = [\<lparr>m_name = ''A'', m_provider_id = ''a/a''\<rparr>],
       concurrency = 1, run_maxRequestsPerMinute = 60, run_maxTokensPerMinute = 120000,
       retries = 0, onProgress = None\<rparr>
     [Fire SetImmediate 0, Settle 0] = [] \<and>
   runBenchmark
     \<lparr>prepare = None,
       complete = (\<lambda>u k. if u = 0 then Inl \<lparr>is_Error = True, message = ''Internal Server Error'', as_string = ''Error: Internal Server Error'', status = JNum 500, response_status = JUndefined\<rparr> else Inr (''kia ora'', ''payload'')),
       random = (\<lambda>u k. 1 / 2), evaluateTest = (\<lambda>u txt. Inr 1), latency = (\<lambda>u. 5),
       writeTrace = (\<lambda>u res. if 255 < length (trace_name res) then Some \<lparr>is_Error = True, message = ''ENAMETOOLONG: name too long'', as_string = ''Error: ENAMETOOLONG: name too long'', status = JUndefined, response_status = JUndefined\<rparr> else None),
       writeReport = (\<lambda>rs. None)\<rparr>
     \<lparr>suite = [\<lparr>tc_id = replicate 300 (CHR ''a''), tc_task = ''translate'', tc_prompt = ''hello'', tc_expected = Some ''kia ora'', tc_eval = Exact\<rparr>],
       models = [\<lparr>m_name = ''A'', m_provider_id = ''a/a''\<rparr>],
       concurrency = 1, run_maxRequestsPerMinute = 60, run_maxTokensPerMinute = 120000,
       retries = 0, onProgress = None\<rparr>
     [Fire SetImmediate 0, Settle 0] =
     Rejected \<lparr>is_Error = True, message = ''ENAMETOOLONG: name too long'', as_string = ''Error: ENAMETOOLONG: name too long'', status = JUndefined, response_status = JUndefined\<rparr>"
  by (simp add: limiter_after_def schedule_all_def units_def estimateTokens_def limiter_opts_def
      results_after_def first_rejection_def run_after_def on_settled_def totalUnits_def
      task_outcome_def unit_task_def try_block_def success_result_def failure_result_def
      outcome_def withRetry_def withRetry_loop.simps retriable_def nullish_def next_delay_int
      error_text_def all_settled_def tasks_fulfil_def no_schedule_def runBenchmark_def
      length_trace_name isFail_def limiter_eval)

end
